theory Spec2Isabelle
  imports Main "HOL-Library.Sublist"
begin

section \<open>Resource naming\<close>

text \<open>
  Names are Python strings. They are modelled as lists of 8-bit characters read as
  code points 0..255; in that range the regular expression class \<^verbatim>\<open>\d\<close> is exactly
  the ten ASCII digits. (Kubernetes names are ASCII.)
\<close>

definition is_digit :: "char \<Rightarrow> bool" where
  "is_digit c = (c \<in> set ''0123456789'')"

definition newline :: char where
  "newline = CHR 0x0A"

text \<open>
  \<^verbatim>\<open>$\<close> without the MULTILINE flag: the position is the end of the string, or it is
  just before a newline that is the last character of the string. The argument is the
  text that is left after the position.
\<close>

definition at_dollar :: "string \<Rightarrow> bool" where
  "at_dollar rest = (rest = [] \<or> rest = [newline])"

text \<open>
  The pattern \<^verbatim>\<open>-\d+$\<close> tried at the head of the remaining text. \<^verbatim>\<open>\d+\<close> is greedy and
  takes every digit that follows the dash; giving digits back never helps, since the
  character after a shorter run is a digit, where \<^verbatim>\<open>$\<close> cannot match. The result is the
  text after the match.
\<close>

fun match_dash_digits :: "string \<Rightarrow> string option" where
  "match_dash_digits [] = None"
| "match_dash_digits (c # cs) =
     (if c = CHR ''-'' \<and> takeWhile is_digit cs \<noteq> [] \<and> at_dollar (dropWhile is_digit cs)
      then Some (dropWhile is_digit cs) else None)"

text \<open>
  \<^verbatim>\<open>re.sub(r'-\d+$', '', name)\<close>: scan from the left; where the pattern matches, the
  match is replaced by the empty string and the scan goes on after it; elsewhere the
  character is kept.
\<close>

function re_sub_dash_digits :: "string \<Rightarrow> string" where
  "re_sub_dash_digits [] = []"
| "re_sub_dash_digits (c # cs) =
     (case match_dash_digits (c # cs) of
        Some rest \<Rightarrow> re_sub_dash_digits rest
      | None \<Rightarrow> c # re_sub_dash_digits cs)"
  by pat_completeness auto
termination
proof (relation "measure length")
  show "wf (measure length)" by simp
next
  fix c :: char and cs rest :: string
  assume "match_dash_digits (c # cs) = Some rest"
  then have "rest = dropWhile is_digit cs"
    by (simp split: if_splits)
  then have "length rest \<le> length cs"
    by (simp add: length_dropWhile_le)
  then show "(rest, c # cs) \<in> measure length" by simp
next
  fix c :: char and cs :: string
  show "(cs, c # cs) \<in> measure length" by simp
qed

definition getDeploymentBaseName :: "string \<Rightarrow> string" where
  "getDeploymentBaseName name = re_sub_dash_digits name"

definition digit_string :: "string \<Rightarrow> bool" where
  "digit_string t = (t \<noteq> [] \<and> list_all is_digit t)"

text \<open>
  A name ends in a version when it is a dash and a non-empty run of digits after some
  prefix, at the very end or just before a final newline.
\<close>

definition ends_in_version :: "string \<Rightarrow> bool" where
  "ends_in_version x =
     (\<exists>b t. digit_string t \<and> (x = b @ CHR ''-'' # t \<or> x = b @ CHR ''-'' # t @ [newline]))"

section \<open>Version timestamps\<close>

text \<open>
  \<^verbatim>\<open>datetime.datetime\<close>, to the second. \<^verbatim>\<open>strftime("%Y%m%d%H%M%S")\<close> writes the
  year with four digits (years 1000 to 9999) and every other field with two.
\<close>

record datetime =
  dt_year :: nat
  dt_month :: nat
  dt_day :: nat
  dt_hour :: nat
  dt_minute :: nat
  dt_second :: nat

definition digit_char :: "nat \<Rightarrow> char" where
  "digit_char n = ''0123456789'' ! (n mod 10)"

definition pad2 :: "nat \<Rightarrow> string" where
  "pad2 n = [digit_char (n div 10), digit_char n]"

definition pad4 :: "nat \<Rightarrow> string" where
  "pad4 n = [digit_char (n div 1000), digit_char (n div 100), digit_char (n div 10), digit_char n]"

definition strftime_simple :: "datetime \<Rightarrow> string" where
  "strftime_simple d =
     pad4 (dt_year d) @ pad2 (dt_month d) @ pad2 (dt_day d) @
     pad2 (dt_hour d) @ pad2 (dt_minute d) @ pad2 (dt_second d)"

text \<open>
  \<^verbatim>\<open>def getSimpleTimestamp(dtTimestamp = datetime.datetime.utcnow(), format = ...)\<close>:
  Python evaluates a default argument once, when the \<^verbatim>\<open>def\<close> statement runs, and
  keeps the value with the function. The module record holds that value;
  \<open>import_controller\<close> is the execution of the module body when the clock reads
  \<open>utcnow\<close>. An argument that is left out is \<open>None\<close> below.
\<close>

record module =
  getSimpleTimestamp_default :: datetime

definition import_controller :: "datetime \<Rightarrow> module" where
  "import_controller utcnow = \<lparr>getSimpleTimestamp_default = utcnow\<rparr>"

definition getSimpleTimestamp :: "module \<Rightarrow> datetime option \<Rightarrow> string" where
  "getSimpleTimestamp md dtTimestamp =
     strftime_simple (case dtTimestamp of
        None \<Rightarrow> getSimpleTimestamp_default md
      | Some t \<Rightarrow> t)"

section \<open>Resources\<close>

text \<open>
  A deployment as the API client hands it over: metadata, spec with the pod template,
  status. The type parameter is what stands where an \<^verbatim>\<open>ObjectMeta\<close> is held: the
  metadata itself in a manifest (the value that goes over the wire), a reference into
  the store in a Python object. Fields the program never looks at are kept as opaque
  payload.
\<close>

type_synonym labels = "string \<rightharpoonup> string"
type_synonym ref = nat

record 'l object_meta =
  meta_name :: string
  meta_namespace :: string
  meta_resource_version :: string
  meta_labels :: 'l

record 'm pod_template_spec =
  tmpl_metadata :: 'm
  tmpl_spec :: string

record 'm deployment_spec =
  spec_replicas :: int
  spec_strategy :: string
  spec_template :: "'m pod_template_spec"

record deployment_status =
  status_replicas :: "int option"
  status_ready_replicas :: "int option"

record 'm deployment =
  dep_metadata :: 'm
  dep_spec :: "'m deployment_spec"
  dep_status :: deployment_status

type_synonym manifest = "labels object_meta deployment"
type_synonym py_deployment = "ref deployment"

record service =
  svc_name :: string
  svc_namespace :: string
  svc_selector :: labels
  svc_ports :: string

section \<open>The object store\<close>

text \<open>
  The program assigns to attributes of \<^verbatim>\<open>ObjectMeta\<close> objects and to items of label
  dictionaries, so these live in a store and are held by reference; a reference is an
  index, and a new object goes to the end. Spec, template and status objects are only
  ever read, so they are held by value.
\<close>

record store =
  metas :: "ref object_meta list"
  dicts :: "labels list"

definition new_dict :: "store \<Rightarrow> labels \<Rightarrow> ref \<times> store" where
  "new_dict h d = (length (dicts h), h\<lparr>dicts := dicts h @ [d]\<rparr>)"

definition new_meta :: "store \<Rightarrow> ref object_meta \<Rightarrow> ref \<times> store" where
  "new_meta h m = (length (metas h), h\<lparr>metas := metas h @ [m]\<rparr>)"

definition template_ref :: "py_deployment \<Rightarrow> ref" where
  "template_ref d = tmpl_metadata (spec_template (dep_spec d))"

definition with_refs :: "'a deployment \<Rightarrow> 'b \<Rightarrow> 'b \<Rightarrow> 'b deployment" where
  "with_refs d m tm =
     \<lparr>dep_metadata = m,
      dep_spec = \<lparr>spec_replicas = spec_replicas (dep_spec d),
                  spec_strategy = spec_strategy (dep_spec d),
                  spec_template = \<lparr>tmpl_metadata = tm,
                                   tmpl_spec = tmpl_spec (spec_template (dep_spec d))\<rparr>\<rparr>,
      dep_status = dep_status d\<rparr>"

text \<open>
  \<^verbatim>\<open>copy.deepcopy(body)\<close>: every object reachable from \<open>body\<close> is copied once; an object
  reached a second time (the memo) is not copied again, so the copy shares what the
  original shares.
\<close>

definition deepcopy :: "store \<Rightarrow> py_deployment \<Rightarrow> py_deployment \<times> store" where
  "deepcopy h body =
     (let m = dep_metadata body;
          tm = template_ref body;
          (l', h1) = new_dict h (dicts h ! meta_labels (metas h ! m));
          (m', h2) = new_meta h1 ((metas h ! m)\<lparr>meta_labels := l'\<rparr>);
          (tm', h4) =
            (if tm = m then (m', h2)
             else
               let (tl', h3) =
                     (if meta_labels (metas h ! tm) = meta_labels (metas h ! m) then (l', h2)
                      else new_dict h2 (dicts h ! meta_labels (metas h ! tm)))
               in new_meta h3 ((metas h ! tm)\<lparr>meta_labels := tl'\<rparr>))
      in (with_refs body m' tm', h4))"

definition set_name :: "store \<Rightarrow> ref \<Rightarrow> string \<Rightarrow> store" where
  "set_name h r v = h\<lparr>metas := (metas h)[r := (metas h ! r)\<lparr>meta_name := v\<rparr>]\<rparr>"

definition set_resource_version :: "store \<Rightarrow> ref \<Rightarrow> string \<Rightarrow> store" where
  "set_resource_version h r v =
     h\<lparr>metas := (metas h)[r := (metas h ! r)\<lparr>meta_resource_version := v\<rparr>]\<rparr>"

definition set_item :: "store \<Rightarrow> ref \<Rightarrow> string \<Rightarrow> string \<Rightarrow> store" where
  "set_item h r k v = h\<lparr>dicts := (dicts h)[r := (dicts h ! r)(k \<mapsto> v)]\<rparr>"

definition duplicate_deployment_config ::
    "store \<Rightarrow> py_deployment \<Rightarrow> string \<Rightarrow> py_deployment \<times> store" where
  "duplicate_deployment_config h body simpleTimestamp =
     (let (newBody, h1) = deepcopy h body;
          newName = getDeploymentBaseName (meta_name (metas h1 ! dep_metadata body));
          h2 = set_name h1 (dep_metadata newBody) (newName @ ''-'' @ simpleTimestamp);
          h3 = set_item h2 (meta_labels (metas h2 ! dep_metadata newBody))
                 ''patch'' simpleTimestamp;
          h4 = set_item h3 (meta_labels (metas h3 ! template_ref newBody))
                 ''patch'' simpleTimestamp;
          h5 = set_resource_version h4 (dep_metadata newBody) []
      in (newBody, h5))"

text \<open>
  Reading an object out of the store (what the client serialises when the object is the
  body of a request), and building the objects of a manifest that came over the wire
  (what the client's deserialiser does: fresh objects, nothing shared).
\<close>

definition read_meta :: "store \<Rightarrow> ref \<Rightarrow> labels object_meta" where
  "read_meta h r =
     \<lparr>meta_name = meta_name (metas h ! r),
      meta_namespace = meta_namespace (metas h ! r),
      meta_resource_version = meta_resource_version (metas h ! r),
      meta_labels = dicts h ! meta_labels (metas h ! r)\<rparr>"

definition manifest_of :: "store \<Rightarrow> py_deployment \<Rightarrow> manifest" where
  "manifest_of h d =
     with_refs d (read_meta h (dep_metadata d)) (read_meta h (template_ref d))"

definition load_meta :: "store \<Rightarrow> labels object_meta \<Rightarrow> ref \<times> store" where
  "load_meta h m =
     (let (l, h1) = new_dict h (meta_labels m)
      in new_meta h1
           \<lparr>meta_name = meta_name m, meta_namespace = meta_namespace m,
            meta_resource_version = meta_resource_version m, meta_labels = l\<rparr>)"

definition load_deployment :: "store \<Rightarrow> manifest \<Rightarrow> py_deployment \<times> store" where
  "load_deployment h d =
     (let (m, h1) = load_meta h (dep_metadata d);
          (tm, h2) = load_meta h1 (tmpl_metadata (spec_template (dep_spec d)))
      in (with_refs d m tm, h2))"

fun load_deployments :: "store \<Rightarrow> manifest list \<Rightarrow> py_deployment list \<times> store" where
  "load_deployments h [] = ([], h)"
| "load_deployments h (d # ds) =
     (let (x, h1) = load_deployment h d;
          (xs, h2) = load_deployments h1 ds
      in (x # xs, h2))"

text \<open>A deployment object is valid in a store when its references point into it.\<close>

definition valid_meta :: "store \<Rightarrow> ref \<Rightarrow> bool" where
  "valid_meta h r = (r < length (metas h) \<and> meta_labels (metas h ! r) < length (dicts h))"

definition valid :: "store \<Rightarrow> py_deployment \<Rightarrow> bool" where
  "valid h d = (valid_meta h (dep_metadata d) \<and> valid_meta h (template_ref d))"

section \<open>The cluster API and the trace of a run\<close>

datatype lookup = ByName string | ByLabel string

datatype error =
    ApiException string
  | StreamException string
  | K8sDeploymentNotFoundError lookup string
  | K8sServiceNotFoundError lookup string
  | K8sBasenameNotUniqueError string string string

datatype selector = LabelSelector string | FieldSelector string

text \<open>
  What a run does to the cluster is the list of requests it sends, in order.
  \<open>WatchReturned\<close> is not a request: it marks the return of
  \<^verbatim>\<open>watch_namespaced_deployment\<close> to its caller, with the value returned.
\<close>

datatype call =
    ListDeployment string selector
  | CreateDeployment string manifest
  | WatchDeployment string
  | WatchReturned string "manifest option"
  | DeleteDeployment string string
  | ListService string selector
  | PatchService string string service

fun mutating :: "call \<Rightarrow> bool" where
  "mutating (CreateDeployment namespace body) = True"
| "mutating (DeleteDeployment name namespace) = True"
| "mutating (PatchService name namespace body) = True"
| "mutating c = False"

fun is_create :: "call \<Rightarrow> bool" where
  "is_create (CreateDeployment namespace body) = True"
| "is_create c = False"

fun is_patch :: "call \<Rightarrow> bool" where
  "is_patch (PatchService name namespace body) = True"
| "is_patch c = False"

fun is_delete :: "call \<Rightarrow> bool" where
  "is_delete (DeleteDeployment name namespace) = True"
| "is_delete c = False"

text \<open>
  The event feed of a watch: the items the stream's iterator yields, by position. The
  iterator may end (\<open>StopIteration\<close>), raise, or go on for ever.
\<close>

record watch_event =
  event_type :: string
  event_object :: manifest

datatype feed_item = Event watch_event | StopIteration | StreamRaises string

type_synonym feed = "nat \<Rightarrow> feed_item"

text \<open>
  The two API clients are arguments of the program. Their answers are not the program's
  to decide, so each method is an arbitrary function of the requests sent so far and of
  its arguments; \<open>Inl\<close> is an \<^verbatim>\<open>ApiException\<close> with its reason.
\<close>

record extensions_v1beta1_api =
  api_list_namespaced_deployment :: "call list \<Rightarrow> string \<Rightarrow> selector \<Rightarrow> string + manifest list"
  api_create_namespaced_deployment :: "call list \<Rightarrow> string \<Rightarrow> manifest \<Rightarrow> string + manifest"
  api_delete_namespaced_deployment :: "call list \<Rightarrow> string \<Rightarrow> string \<Rightarrow> string + unit"
  api_watch_namespaced_deployment :: "call list \<Rightarrow> string \<Rightarrow> feed"

record core_v1_api =
  api_list_namespaced_service :: "call list \<Rightarrow> string \<Rightarrow> selector \<Rightarrow> string + service list"
  api_patch_namespaced_service :: "call list \<Rightarrow> string \<Rightarrow> string \<Rightarrow> service \<Rightarrow> string + service"

record state =
  heap :: store
  calls :: "call list"

definition record_call :: "call \<Rightarrow> state \<Rightarrow> state" where
  "record_call c s = s\<lparr>calls := calls s @ [c]\<rparr>"

section \<open>Resource locator\<close>

definition get_namespaced_deployment ::
    "extensions_v1beta1_api \<Rightarrow> string \<Rightarrow> string \<Rightarrow> state \<Rightarrow> (error + py_deployment) \<times> state" where
  "get_namespaced_deployment extv1Client name namespace s =
     (let field_selector = FieldSelector (''metadata.name='' @ name);
          s1 = record_call (ListDeployment namespace field_selector) s
      in case api_list_namespaced_deployment extv1Client (calls s) namespace field_selector of
           Inl e \<Rightarrow> (Inl (ApiException e), s1)
         | Inr items \<Rightarrow>
             (let (deploymentList, h) = load_deployments (heap s1) items;
                  s2 = s1\<lparr>heap := h\<rparr>
              in case deploymentList of
                   [] \<Rightarrow> (Inl (K8sDeploymentNotFoundError (ByName name) namespace), s2)
                 | dep # rest \<Rightarrow> (Inr dep, s2)))"

definition get_namespaced_deployments ::
    "extensions_v1beta1_api \<Rightarrow> string \<Rightarrow> string \<Rightarrow> state \<Rightarrow> (error + py_deployment list) \<times> state" where
  "get_namespaced_deployments extv1Client label_selector namespace s =
     (let s1 = record_call (ListDeployment namespace (LabelSelector label_selector)) s
      in case api_list_namespaced_deployment extv1Client (calls s) namespace
                (LabelSelector label_selector) of
           Inl e \<Rightarrow> (Inl (ApiException e), s1)
         | Inr items \<Rightarrow>
             (let (deploymentList, h) = load_deployments (heap s1) items;
                  s2 = s1\<lparr>heap := h\<rparr>
              in if length deploymentList < 1
                 then (Inl (K8sDeploymentNotFoundError (ByLabel label_selector) namespace), s2)
                 else (Inr deploymentList, s2)))"

definition create_namespaced_deployment ::
    "extensions_v1beta1_api \<Rightarrow> py_deployment \<Rightarrow> string \<Rightarrow> state \<Rightarrow> (error + manifest) \<times> state" where
  "create_namespaced_deployment extv1Client body namespace s =
     (let request = manifest_of (heap s) body;
          s1 = record_call (CreateDeployment namespace request) s
      in case api_create_namespaced_deployment extv1Client (calls s) namespace request of
           Inl e \<Rightarrow> (Inl (ApiException e), s1)
         | Inr deployment \<Rightarrow> (Inr deployment, s1))"

definition get_namespaced_service ::
    "core_v1_api \<Rightarrow> string \<Rightarrow> string \<Rightarrow> state \<Rightarrow> (error + service) \<times> state" where
  "get_namespaced_service v1Client name namespace s =
     (let field_selector = FieldSelector (''metadata.name='' @ name);
          s1 = record_call (ListService namespace field_selector) s
      in case api_list_namespaced_service v1Client (calls s) namespace field_selector of
           Inl e \<Rightarrow> (Inl (ApiException e), s1)
         | Inr [] \<Rightarrow> (Inl (K8sServiceNotFoundError (ByName name) namespace), s1)
         | Inr (svc # rest) \<Rightarrow> (Inr svc, s1))"

definition get_namespaced_services ::
    "core_v1_api \<Rightarrow> string \<Rightarrow> string \<Rightarrow> state \<Rightarrow> (error + service list) \<times> state" where
  "get_namespaced_services v1Client label_selector namespace s =
     (let s1 = record_call (ListService namespace (LabelSelector label_selector)) s
      in case api_list_namespaced_service v1Client (calls s) namespace
                (LabelSelector label_selector) of
           Inl e \<Rightarrow> (Inl (ApiException e), s1)
         | Inr items \<Rightarrow>
             if length items < 1
             then (Inl (K8sServiceNotFoundError (ByLabel label_selector) namespace), s1)
             else (Inr items, s1))"

section \<open>Service cutover\<close>

text \<open>
  The service body is a fresh object of this call; the assignment to its selector is
  seen nowhere else, so it is an update of the value.
\<close>

definition patch_namespaced_service ::
    "core_v1_api \<Rightarrow> string \<Rightarrow> string \<Rightarrow> string \<Rightarrow> state \<Rightarrow> (error + service) \<times> state" where
  "patch_namespaced_service v1Client name simpleTimestamp namespace s =
     (case get_namespaced_service v1Client name namespace s of
        (Inl e, s1) \<Rightarrow> (Inl e, s1)
      | (Inr serviceBody, s1) \<Rightarrow>
          (let body = serviceBody\<lparr>svc_selector := (svc_selector serviceBody)(''patch'' \<mapsto> simpleTimestamp)\<rparr>;
               s2 = record_call (PatchService name namespace body) s1
           in case api_patch_namespaced_service v1Client (calls s1) name namespace body of
                Inl e \<Rightarrow> (Inl (ApiException e), s2)
              | Inr service \<Rightarrow> (Inr service, s2)))"

section \<open>Readiness watcher\<close>

definition replicas_ready :: "deployment_status \<Rightarrow> bool" where
  "replicas_ready st =
     (case status_ready_replicas st of
        None \<Rightarrow> False
      | Some ready \<Rightarrow>
          (case status_replicas st of
             None \<Rightarrow> False
           | Some desired \<Rightarrow> ready \<ge> desired))"

text \<open>
  The \<^verbatim>\<open>for event in stream\<close> loop, from position \<open>i\<close> of the feed. A result \<open>None\<close>
  is a loop that never ends; \<open>Some (Inr None)\<close> is the function falling off the end of
  the loop, which in Python returns the value \<^verbatim>\<open>None\<close>.
\<close>

partial_function (option) watch_events ::
    "feed \<Rightarrow> nat \<Rightarrow> string \<Rightarrow> (error + manifest option) option" where
  "watch_events stream i name =
     (case stream i of
        StopIteration \<Rightarrow> Some (Inr None)
      | StreamRaises e \<Rightarrow> Some (Inl (StreamException e))
      | Event event \<Rightarrow>
          (let deployment = event_object event
           in if meta_name (dep_metadata deployment) = name
              then (if replicas_ready (dep_status deployment)
                    then Some (Inr (Some deployment))
                    else watch_events stream (Suc i) name)
              else watch_events stream (Suc i) name))"

definition watch_namespaced_deployment ::
    "extensions_v1beta1_api \<Rightarrow> string \<Rightarrow> string \<Rightarrow> state \<Rightarrow>
      (error + manifest option) option \<times> state" where
  "watch_namespaced_deployment extv1Client name namespace s =
     (let stream = api_watch_namespaced_deployment extv1Client (calls s) namespace;
          s1 = record_call (WatchDeployment namespace) s
      in case watch_events stream 0 name of
           None \<Rightarrow> (None, s1)
         | Some (Inl e) \<Rightarrow> (Some (Inl e), s1)
         | Some (Inr deployment) \<Rightarrow>
             (Some (Inr deployment), record_call (WatchReturned name deployment) s1))"

section \<open>Uniqueness validator\<close>

fun check_loop :: "store \<Rightarrow> (string \<rightharpoonup> string) \<Rightarrow> py_deployment list \<Rightarrow> error + unit" where
  "check_loop h basenames [] = Inr ()"
| "check_loop h basenames (dep # deployments) =
     (let name = meta_name (metas h ! dep_metadata dep);
          basename = getDeploymentBaseName name
      in case basenames basename of
           Some existing \<Rightarrow> Inl (K8sBasenameNotUniqueError name basename existing)
         | None \<Rightarrow> check_loop h (basenames(basename \<mapsto> name)) deployments)"

definition check_deployments :: "store \<Rightarrow> py_deployment list \<Rightarrow> error + unit" where
  "check_deployments h deployments = check_loop h Map.empty deployments"

section \<open>Rollout orchestrator\<close>

definition duplicate_deployment ::
    "module \<Rightarrow> extensions_v1beta1_api \<Rightarrow> string \<Rightarrow> string \<Rightarrow> state \<Rightarrow> (error + manifest) \<times> state" where
  "duplicate_deployment md extv1Client name namespace s =
     (case get_namespaced_deployment extv1Client name namespace s of
        (Inl e, s1) \<Rightarrow> (Inl e, s1)
      | (Inr dep, s1) \<Rightarrow>
          (let timestamp = getSimpleTimestamp md None;
               (dep_copy, h) = duplicate_deployment_config (heap s1) dep timestamp
           in create_namespaced_deployment extv1Client dep_copy namespace (s1\<lparr>heap := h\<rparr>)))"

text \<open>The three \<^verbatim>\<open>for\<close> loops of \<^verbatim>\<open>trigger_smart_rollout\<close>.\<close>

fun rollout_duplicate_loop ::
    "extensions_v1beta1_api \<Rightarrow> string \<Rightarrow> string \<Rightarrow> py_deployment list \<Rightarrow> state \<Rightarrow>
      (error + unit) option \<times> state" where
  "rollout_duplicate_loop extv1Client namespace simpleTimestamp [] s = (Some (Inr ()), s)"
| "rollout_duplicate_loop extv1Client namespace simpleTimestamp (dep # deps) s =
     (let (dep_copy, h) = duplicate_deployment_config (heap s) dep simpleTimestamp
      in case create_namespaced_deployment extv1Client dep_copy namespace (s\<lparr>heap := h\<rparr>) of
           (Inl e, s1) \<Rightarrow> (Some (Inl e), s1)
         | (Inr created, s1) \<Rightarrow>
             (case watch_namespaced_deployment extv1Client
                     (meta_name (metas (heap s1) ! dep_metadata dep_copy)) namespace s1 of
                (None, s2) \<Rightarrow> (None, s2)
              | (Some (Inl e), s2) \<Rightarrow> (Some (Inl e), s2)
              | (Some (Inr ready), s2) \<Rightarrow>
                  rollout_duplicate_loop extv1Client namespace simpleTimestamp deps s2))"

fun rollout_patch_loop ::
    "core_v1_api \<Rightarrow> string \<Rightarrow> string \<Rightarrow> service list \<Rightarrow> state \<Rightarrow> (error + unit) \<times> state" where
  "rollout_patch_loop v1Client namespace simpleTimestamp [] s = (Inr (), s)"
| "rollout_patch_loop v1Client namespace simpleTimestamp (svc # services) s =
     (case patch_namespaced_service v1Client (svc_name svc) simpleTimestamp namespace s of
        (Inl e, s1) \<Rightarrow> (Inl e, s1)
      | (Inr patched, s1) \<Rightarrow> rollout_patch_loop v1Client namespace simpleTimestamp services s1)"

fun rollout_cleanup_loop ::
    "extensions_v1beta1_api \<Rightarrow> string \<Rightarrow> py_deployment list \<Rightarrow> state \<Rightarrow> (error + unit) \<times> state" where
  "rollout_cleanup_loop extv1Client namespace [] s = (Inr (), s)"
| "rollout_cleanup_loop extv1Client namespace (dep # deps) s =
     (let name = meta_name (metas (heap s) ! dep_metadata dep);
          s1 = record_call (DeleteDeployment name namespace) s
      in case api_delete_namespaced_deployment extv1Client (calls s) name namespace of
           Inl e \<Rightarrow> (Inl (ApiException e), s1)
         | Inr done \<Rightarrow> rollout_cleanup_loop extv1Client namespace deps s1)"

definition trigger_smart_rollout ::
    "module \<Rightarrow> core_v1_api \<Rightarrow> extensions_v1beta1_api \<Rightarrow> string \<Rightarrow> string \<Rightarrow> bool \<Rightarrow> state \<Rightarrow>
      (error + unit) option \<times> state" where
  "trigger_smart_rollout md v1Client extv1Client label_selector namespace cleanup s =
     (let simpleTimestamp = getSimpleTimestamp md None
      in case get_namespaced_deployments extv1Client label_selector namespace s of
           (Inl e, s1) \<Rightarrow> (Some (Inl e), s1)
         | (Inr deps, s1) \<Rightarrow>
             (case check_deployments (heap s1) deps of
                Inl e \<Rightarrow> (Some (Inl e), s1)
              | Inr checked \<Rightarrow>
                  (case rollout_duplicate_loop extv1Client namespace simpleTimestamp deps s1 of
                     (None, s2) \<Rightarrow> (None, s2)
                   | (Some (Inl e), s2) \<Rightarrow> (Some (Inl e), s2)
                   | (Some (Inr duplicated), s2) \<Rightarrow>
                       (case get_namespaced_services v1Client label_selector namespace s2 of
                          (Inl e, s3) \<Rightarrow> (Some (Inl e), s3)
                        | (Inr services, s3) \<Rightarrow>
                            (case rollout_patch_loop v1Client namespace simpleTimestamp services s3 of
                               (Inl e, s4) \<Rightarrow> (Some (Inl e), s4)
                             | (Inr patched, s4) \<Rightarrow>
                                 if cleanup
                                 then (case rollout_cleanup_loop extv1Client namespace deps s4 of
                                         (Inl e, s5) \<Rightarrow> (Some (Inl e), s5)
                                       | (Inr cleaned, s5) \<Rightarrow> (Some (Inr ()), s5))
                                 else (Some (Inr ()), s4))))))"

section \<open>The specification's duplicate\<close>

text \<open>
  These two definitions follow the words of the specification (sections 4.1 and 4.2),
  not the code: the versioned name is the base name, a dash and the timestamp; the
  duplicate has the versioned name of the existing name's base name, the entry
  \<open>patch = timestamp\<close> in the label map and in the pod template's label map, an empty
  resource-version token, and every other field as in the existing spec.
\<close>

definition spec_versionedName :: "string \<Rightarrow> string \<Rightarrow> string" where
  "spec_versionedName baseName timestamp = baseName @ ''-'' @ timestamp"

definition spec_duplicate :: "manifest \<Rightarrow> string \<Rightarrow> manifest" where
  "spec_duplicate existing timestamp =
     with_refs existing
       ((dep_metadata existing)
          \<lparr>meta_name := spec_versionedName (getDeploymentBaseName (meta_name (dep_metadata existing))) timestamp,
           meta_resource_version := [],
           meta_labels := (meta_labels (dep_metadata existing))(''patch'' \<mapsto> timestamp)\<rparr>)
       ((tmpl_metadata (spec_template (dep_spec existing)))
          \<lparr>meta_labels := (meta_labels (tmpl_metadata (spec_template (dep_spec existing))))
             (''patch'' \<mapsto> timestamp)\<rparr>)"

section \<open>Reading a feed\<close>

text \<open>
  What the watch loop does with one item of the feed: it passes over an event that is
  not about the named deployment or does not show it ready, and it stops at every
  other item, with the outcome below.
\<close>

definition passed :: "string \<Rightarrow> feed_item \<Rightarrow> bool" where
  "passed name item =
     (case item of
        Event event \<Rightarrow>
          \<not> (meta_name (dep_metadata (event_object event)) = name \<and>
             replicas_ready (dep_status (event_object event)))
      | StopIteration \<Rightarrow> False
      | StreamRaises e \<Rightarrow> False)"

definition outcome_at :: "feed_item \<Rightarrow> error + manifest option" where
  "outcome_at item =
     (case item of
        Event event \<Rightarrow> Inr (Some (event_object event))
      | StopIteration \<Rightarrow> Inr None
      | StreamRaises e \<Rightarrow> Inl (StreamException e))"

text \<open>A feed that yields the given items and then ends.\<close>

definition feed_of :: "feed_item list \<Rightarrow> feed" where
  "feed_of items i = (if i < length items then items ! i else StopIteration)"

section \<open>Describing stores and traces\<close>

text \<open>A store extends another when it holds the same objects at the same references.\<close>

definition extends :: "store \<Rightarrow> store \<Rightarrow> bool" where
  "extends h h' = (\<exists>ms ds. metas h' = metas h @ ms \<and> dicts h' = dicts h @ ds)"

definition tree_shaped :: "py_deployment \<Rightarrow> bool" where
  "tree_shaped d = (template_ref d \<noteq> dep_metadata d)"

text \<open>
  The calls of one round of the duplication loop for an existing deployment, when the
  wait returned \<open>waited\<close>, and the calls of one cutover of the service \<open>name\<close>, when
  the lookup by name gave \<open>current\<close>.
\<close>

definition duplicate_calls :: "string \<Rightarrow> string \<Rightarrow> manifest \<Rightarrow> manifest option \<Rightarrow> call list" where
  "duplicate_calls namespace timestamp existing waited =
     [CreateDeployment namespace (spec_duplicate existing timestamp),
      WatchDeployment namespace,
      WatchReturned (meta_name (dep_metadata (spec_duplicate existing timestamp))) waited]"

definition cutover_calls :: "string \<Rightarrow> string \<Rightarrow> string \<Rightarrow> service \<Rightarrow> call list" where
  "cutover_calls namespace timestamp name current =
     [ListService namespace (FieldSelector (''metadata.name='' @ name)),
      PatchService name namespace
        (current\<lparr>svc_selector := (svc_selector current)(''patch'' \<mapsto> timestamp)\<rparr>)]"

definition delete_call :: "string \<Rightarrow> manifest \<Rightarrow> call" where
  "delete_call namespace existing = DeleteDeployment (meta_name (dep_metadata existing)) namespace"

text \<open>
  What a wait that has returned has seen: a deployment of the awaited name with its
  ready replicas present, its desired replicas present and the former at least the
  latter, or nothing at all (\<open>None\<close>).
\<close>

definition observed_ready :: "string \<Rightarrow> manifest option \<Rightarrow> bool" where
  "observed_ready name waited =
     (case waited of
        None \<Rightarrow> False
      | Some d \<Rightarrow> meta_name (dep_metadata d) = name \<and> replicas_ready (dep_status d))"

text \<open>
  The phase of the smart rollout a call belongs to: discovery of the deployments,
  duplication and waiting, cutover of the services, cleanup.
\<close>

fun phase :: "call \<Rightarrow> nat" where
  "phase (ListDeployment namespace selector) = 0"
| "phase (CreateDeployment namespace body) = 1"
| "phase (WatchDeployment namespace) = 1"
| "phase (WatchReturned name waited) = 1"
| "phase (ListService namespace selector) = 2"
| "phase (PatchService name namespace body) = 2"
| "phase (DeleteDeployment name namespace) = 3"

section \<open>A small cluster for the examples\<close>

text \<open>
  One deployment \<open>app-1\<close> with label \<open>app=myapp\<close> and two ready replicas of two, and
  the store that holds it as a Python object.
\<close>

definition app1_manifest :: manifest where
  "app1_manifest =
     \<lparr>dep_metadata =
        \<lparr>meta_name = ''app-1'', meta_namespace = ''default'',
         meta_resource_version = ''42'', meta_labels = [''app'' \<mapsto> ''myapp'']\<rparr>,
      dep_spec =
        \<lparr>spec_replicas = 2, spec_strategy = ''RollingUpdate'',
         spec_template =
           \<lparr>tmpl_metadata =
              \<lparr>meta_name = [], meta_namespace = [],
               meta_resource_version = [], meta_labels = [''app'' \<mapsto> ''myapp'']\<rparr>,
            tmpl_spec = ''nginx:1.17''\<rparr>\<rparr>,
      dep_status = \<lparr>status_replicas = Some 2, status_ready_replicas = Some 2\<rparr>\<rparr>"

definition empty_store :: store where
  "empty_store = \<lparr>metas = [], dicts = []\<rparr>"

definition app1 :: py_deployment where
  "app1 = fst (load_deployment empty_store app1_manifest)"

definition app1_store :: store where
  "app1_store = snd (load_deployment empty_store app1_manifest)"

text \<open>
  A service selecting \<open>app=myapp\<close>, and API clients for the examples. In the healthy
  cluster every created deployment is announced with no ready replica and then
  reported with all of them ready; in the closing cluster the feed ends after the
  announcement. The conflicting cluster holds two deployments of one base name.
\<close>

definition svc1 :: service where
  "svc1 =
     \<lparr>svc_name = ''app'', svc_namespace = ''default'',
      svc_selector = [''app'' \<mapsto> ''myapp''], svc_ports = ''80''\<rparr>"

definition with_status :: "manifest \<Rightarrow> int option \<Rightarrow> manifest" where
  "with_status d ready =
     d\<lparr>dep_status :=
        \<lparr>status_replicas = Some (spec_replicas (dep_spec d)), status_ready_replicas = ready\<rparr>\<rparr>"

fun announced :: "call \<Rightarrow> feed_item list" where
  "announced (CreateDeployment namespace body) =
     [Event \<lparr>event_type = ''ADDED'', event_object = with_status body None\<rparr>]"
| "announced c = []"

fun rolled_out :: "call \<Rightarrow> feed_item list" where
  "rolled_out (CreateDeployment namespace body) =
     [Event \<lparr>event_type = ''ADDED'', event_object = with_status body None\<rparr>,
      Event \<lparr>event_type = ''MODIFIED'',
             event_object = with_status body (Some (spec_replicas (dep_spec body)))\<rparr>]"
| "rolled_out c = []"

definition healthy_cluster :: extensions_v1beta1_api where
  "healthy_cluster =
     \<lparr>api_list_namespaced_deployment = (\<lambda>history namespace selector. Inr [app1_manifest]),
      api_create_namespaced_deployment = (\<lambda>history namespace body. Inr body),
      api_delete_namespaced_deployment = (\<lambda>history name namespace. Inr ()),
      api_watch_namespaced_deployment =
        (\<lambda>history namespace. feed_of (concat (map rolled_out history)))\<rparr>"

definition closing_cluster :: extensions_v1beta1_api where
  "closing_cluster =
     healthy_cluster
       \<lparr>api_watch_namespaced_deployment :=
          (\<lambda>history namespace. feed_of (concat (map announced history)))\<rparr>"

definition named :: "string \<Rightarrow> manifest" where
  "named n = app1_manifest\<lparr>dep_metadata := (dep_metadata app1_manifest)\<lparr>meta_name := n\<rparr>\<rparr>"

definition conflicting_cluster :: extensions_v1beta1_api where
  "conflicting_cluster =
     healthy_cluster
       \<lparr>api_list_namespaced_deployment :=
          (\<lambda>history namespace selector.
             Inr [named ''svc-20190101000000'', named ''svc-20190102000000''])\<rparr>"

definition empty_cluster :: extensions_v1beta1_api where
  "empty_cluster =
     healthy_cluster
       \<lparr>api_list_namespaced_deployment := (\<lambda>history namespace selector. Inr [])\<rparr>"

definition one_service :: core_v1_api where
  "one_service =
     \<lparr>api_list_namespaced_service = (\<lambda>history namespace selector. Inr [svc1]),
      api_patch_namespaced_service = (\<lambda>history name namespace body. Inr body)\<rparr>"

definition no_service :: core_v1_api where
  "no_service =
     \<lparr>api_list_namespaced_service = (\<lambda>history namespace selector. Inr []),
      api_patch_namespaced_service = (\<lambda>history name namespace body. Inr body)\<rparr>"

definition fresh :: state where
  "fresh = \<lparr>heap = empty_store, calls = []\<rparr>"

text \<open>
  The module as imported on 2019-10-11 at 13:48:34, and a later moment, 2019-10-12 at
  09:00:00, at which it is used.
\<close>

definition import_time :: datetime where
  "import_time =
     \<lparr>dt_year = 2019, dt_month = 10, dt_day = 11, dt_hour = 13, dt_minute = 48, dt_second = 34\<rparr>"

definition call_time :: datetime where
  "call_time =
     \<lparr>dt_year = 2019, dt_month = 10, dt_day = 12, dt_hour = 9, dt_minute = 0, dt_second = 0\<rparr>"

definition controller :: module where
  "controller = import_controller import_time"

text \<open>
  The duplicate of \<open>app-1\<close> that a rollout by this module makes, as the specification
  describes it.
\<close>

definition app2_manifest :: manifest where
  "app2_manifest = spec_duplicate app1_manifest ''20191011134834''"

section \<open>Properties of the naming functions\<close>

lemma newline_not_digit: "\<not> is_digit newline"
  by (simp add: is_digit_def newline_def)

lemma dash_not_digit: "\<not> is_digit CHR ''-''"
  by (simp add: is_digit_def)

lemma dropWhile_keeps: "\<not> P y \<Longrightarrow> \<exists>zs. dropWhile P (xs @ y # ys) = zs @ y # ys"
  by (induction xs) auto

lemma takeWhile_digits: "list_all is_digit t \<Longrightarrow> takeWhile is_digit (t @ r) = t @ takeWhile is_digit r"
  by (induction t) auto

lemma dropWhile_digits: "list_all is_digit t \<Longrightarrow> dropWhile is_digit (t @ r) = dropWhile is_digit r"
  by (induction t) auto

lemma no_match_inside:
  assumes "ys \<noteq> []"
  shows "match_dash_digits (c # b @ CHR ''-'' # ys) = None"
proof -
  obtain zs where "dropWhile is_digit (b @ CHR ''-'' # ys) = zs @ CHR ''-'' # ys"
    using dropWhile_keeps [of is_digit "CHR ''-''" b ys] dash_not_digit by blast
  with assms have "\<not> at_dollar (dropWhile is_digit (b @ CHR ''-'' # ys))"
    by (cases ys) (auto simp: at_dollar_def)
  then show ?thesis by simp
qed

lemma re_sub_append_version:
  assumes "digit_string t"
  shows "re_sub_dash_digits (b @ CHR ''-'' # t) = b"
proof (induction b)
  case Nil
  from assms have all: "\<forall>c\<in>set t. is_digit c" and ne: "t \<noteq> []"
    by (simp_all add: digit_string_def list_all_iff)
  from all have tw: "takeWhile is_digit t = t" and dw: "dropWhile is_digit t = []"
    by simp_all
  have "match_dash_digits (CHR ''-'' # t) = Some []"
    unfolding match_dash_digits.simps tw dw at_dollar_def using ne by simp
  then show ?case by simp
next
  case (Cons c b)
  from assms have "t \<noteq> []" by (simp add: digit_string_def)
  then have "match_dash_digits (c # b @ CHR ''-'' # t) = None"
    by (rule no_match_inside)
  with Cons show ?case by simp
qed

lemma re_sub_append_version_newline:
  assumes "digit_string t"
  shows "re_sub_dash_digits (b @ CHR ''-'' # t @ [newline]) = b @ [newline]"
proof (induction b)
  case Nil
  from assms have all: "list_all is_digit t" and ne: "t \<noteq> []"
    by (simp_all add: digit_string_def)
  from all have tw: "takeWhile is_digit (t @ [newline]) = t"
    and dw: "dropWhile is_digit (t @ [newline]) = [newline]"
    using takeWhile_digits [of t "[newline]"] dropWhile_digits [of t "[newline]"]
      newline_not_digit by simp_all
  have "match_dash_digits (CHR ''-'' # t @ [newline]) = Some [newline]"
    unfolding match_dash_digits.simps tw dw at_dollar_def using ne by simp
  moreover have "match_dash_digits [newline] = None" by (simp add: newline_def)
  ultimately show ?case by simp
next
  case (Cons c b)
  have "match_dash_digits (c # b @ CHR ''-'' # t @ [newline]) = None"
    by (rule no_match_inside) simp
  with Cons show ?case by simp
qed

lemma match_gives_ends_in_version:
  assumes "match_dash_digits x = Some rest"
  shows "ends_in_version x"
proof (cases x)
  case Nil with assms show ?thesis by simp
next
  case (Cons c cs)
  with assms have c: "c = CHR ''-''" and t: "takeWhile is_digit cs \<noteq> []"
    and d: "at_dollar (dropWhile is_digit cs)"
    by (simp_all split: if_splits)
  let ?t = "takeWhile is_digit cs"
  have ds: "digit_string ?t" using t
    by (auto simp: digit_string_def list_all_iff dest: set_takeWhileD)
  have "?t @ dropWhile is_digit cs = cs" by (rule takeWhile_dropWhile_id)
  with d have "cs = ?t \<or> cs = ?t @ [newline]"
    unfolding at_dollar_def by (metis append_Nil2)
  with c Cons ds show ?thesis
    unfolding ends_in_version_def by (metis append_Nil)
qed

lemma ends_in_version_Cons: "ends_in_version cs \<Longrightarrow> ends_in_version (c # cs)"
  unfolding ends_in_version_def by (metis append_Cons)

lemma re_sub_unversioned: "\<not> ends_in_version x \<Longrightarrow> re_sub_dash_digits x = x"
proof (induction x)
  case Nil show ?case by simp
next
  case (Cons c cs)
  then have "match_dash_digits (c # cs) = None"
    using match_gives_ends_in_version [of "c # cs"] by (cases "match_dash_digits (c # cs)") auto
  moreover have "\<not> ends_in_version cs" using Cons.prems ends_in_version_Cons by blast
  ultimately show ?case using Cons.IH by simp
qed


lemma ends_in_version_changes:
  assumes "ends_in_version x"
  shows "re_sub_dash_digits x \<noteq> x"
proof -
  from assms obtain b t where t: "digit_string t"
    and x: "x = b @ CHR ''-'' # t \<or> x = b @ CHR ''-'' # t @ [newline]"
    unfolding ends_in_version_def by blast
  from x show ?thesis
  proof
    assume "x = b @ CHR ''-'' # t"
    then show ?thesis using re_sub_append_version [OF t, of b] by simp
  next
    assume e: "x = b @ CHR ''-'' # t @ [newline]"
    have "length (b @ [newline]) \<noteq> length x" unfolding e by simp
    then show ?thesis using re_sub_append_version_newline [OF t, of b] e by metis
  qed
qed

subsection \<open>Claim C3\<close>

text \<open>
  C3, as stated: the base name is idempotent for every string. It is not: the pattern
  is matched once, at the end of the name, so a name with two numeric suffixes loses
  only the last, and the result still ends in one.
\<close>

theorem baseName_not_idempotent:
  "getDeploymentBaseName (getDeploymentBaseName ''app-1-2'') \<noteq> getDeploymentBaseName ''app-1-2''"
  by (simp add: getDeploymentBaseName_def is_digit_def at_dollar_def)

text \<open>
  C3, amended: the base name removes exactly one trailing dash-and-digits group (at the
  end of the name, or just before a final newline, where Python's \<^verbatim>\<open>$\<close> also
  matches) and returns every other name unchanged; applying it twice gives the same as
  applying it once exactly when the first result does not end in such a group again;
  and the three examples of the specification hold.
\<close>

theorem baseName_strips_one_suffix:
  "(digit_string t \<longrightarrow>
      getDeploymentBaseName (b @ ''-'' @ t) = b \<and>
      getDeploymentBaseName (b @ ''-'' @ t @ [newline]) = b @ [newline]) \<and>
   (\<not> ends_in_version x \<longrightarrow> getDeploymentBaseName x = x) \<and>
   (getDeploymentBaseName (getDeploymentBaseName x) = getDeploymentBaseName x
      \<longleftrightarrow> \<not> ends_in_version (getDeploymentBaseName x)) \<and>
   getDeploymentBaseName ''app-20191011134834'' = ''app'' \<and>
   getDeploymentBaseName ''app'' = ''app'' \<and>
   getDeploymentBaseName ''app-v2'' = ''app-v2''"
proof (intro conjI impI)
  assume t: "digit_string t"
  show "getDeploymentBaseName (b @ ''-'' @ t) = b"
    using re_sub_append_version [OF t, of b] by (simp add: getDeploymentBaseName_def)
  show "getDeploymentBaseName (b @ ''-'' @ t @ [newline]) = b @ [newline]"
    using re_sub_append_version_newline [OF t, of b] by (simp add: getDeploymentBaseName_def)
next
  assume "\<not> ends_in_version x"
  then show "getDeploymentBaseName x = x"
    by (simp add: getDeploymentBaseName_def re_sub_unversioned)
next
  show "getDeploymentBaseName (getDeploymentBaseName x) = getDeploymentBaseName x
      \<longleftrightarrow> \<not> ends_in_version (getDeploymentBaseName x)"
    unfolding getDeploymentBaseName_def
    using re_sub_unversioned ends_in_version_changes by blast
qed (simp_all add: getDeploymentBaseName_def is_digit_def at_dollar_def)

theorem baseName_strips_one_suffix_witness:
  "digit_string ''20191011134834'' \<and>
   getDeploymentBaseName (''app'' @ ''-'' @ ''20191011134834'') = ''app'' \<and>
   getDeploymentBaseName (''app'' @ ''-'' @ ''20191011134834'' @ [newline]) = ''app'' @ [newline] \<and>
   \<not> ends_in_version ''app-v2'' \<and>
   getDeploymentBaseName ''app-v2'' = ''app-v2'' \<and>
   \<not> ends_in_version (getDeploymentBaseName ''app-1'') \<and>
   getDeploymentBaseName (getDeploymentBaseName ''app-1'') = getDeploymentBaseName ''app-1''"
proof -
  have d: "digit_string ''20191011134834''"
    by (simp add: digit_string_def is_digit_def)
  have v2: "re_sub_dash_digits ''app-v2'' = ''app-v2''"
    by (simp add: is_digit_def at_dollar_def)
  have n2: "\<not> ends_in_version ''app-v2''"
    using ends_in_version_changes [of "''app-v2''"] v2 by blast
  have a1: "getDeploymentBaseName ''app-1'' = ''app''"
    by (simp add: getDeploymentBaseName_def is_digit_def at_dollar_def)
  have "re_sub_dash_digits ''app'' = ''app''"
    by (simp add: is_digit_def at_dollar_def)
  then have n1: "\<not> ends_in_version (getDeploymentBaseName ''app-1'')"
    using ends_in_version_changes [of "''app''"] a1 by auto
  show ?thesis
    using d n2 n1
      baseName_strips_one_suffix [of "''20191011134834''" "''app''" "''app-v2''"]
      baseName_strips_one_suffix [of "''20191011134834''" "''app''" "''app-1''"]
    by blast
qed


section \<open>Properties of the spec duplicator\<close>

lemma nth_append_Suc_length: "(xs @ a # b # ys) ! Suc (length xs) = b"
  by (simp add: nth_append)

lemma list_update_Suc_length: "(xs @ a # b # ys)[Suc (length xs) := z] = xs @ a # z # ys"
  by (induction xs) simp_all

lemmas store_steps = new_dict_def new_meta_def set_name_def set_item_def
  set_resource_version_def template_ref_def with_refs_def Let_def
  nth_append_Suc_length list_update_Suc_length

lemma duplicate_same_meta:
  assumes "template_ref body = dep_metadata body" and "dep_metadata body < length (metas h)"
  shows "duplicate_deployment_config h body t =
     (with_refs body (length (metas h)) (length (metas h)),
      \<lparr>metas = metas h @
         [(metas h ! dep_metadata body)
            \<lparr>meta_name := getDeploymentBaseName (meta_name (metas h ! dep_metadata body)) @ ''-'' @ t,
             meta_resource_version := [],
             meta_labels := length (dicts h)\<rparr>],
       dicts = dicts h @
         [(dicts h ! meta_labels (metas h ! dep_metadata body))(''patch'' \<mapsto> t)]\<rparr>)"
  using assms
  unfolding duplicate_deployment_config_def deepcopy_def
  by (cases h) (simp add: store_steps nth_append)

lemma duplicate_shared_dict:
  assumes "template_ref body \<noteq> dep_metadata body"
    and "meta_labels (metas h ! template_ref body) = meta_labels (metas h ! dep_metadata body)"
    and "dep_metadata body < length (metas h)"
  shows "duplicate_deployment_config h body t =
     (with_refs body (length (metas h)) (Suc (length (metas h))),
      \<lparr>metas = metas h @
         [(metas h ! dep_metadata body)
            \<lparr>meta_name := getDeploymentBaseName (meta_name (metas h ! dep_metadata body)) @ ''-'' @ t,
             meta_resource_version := [],
             meta_labels := length (dicts h)\<rparr>,
          (metas h ! template_ref body)\<lparr>meta_labels := length (dicts h)\<rparr>],
       dicts = dicts h @
         [(dicts h ! meta_labels (metas h ! dep_metadata body))(''patch'' \<mapsto> t)]\<rparr>)"
  using assms
  unfolding duplicate_deployment_config_def deepcopy_def
  by (cases h) (simp add: store_steps nth_append)

lemma duplicate_tree:
  assumes "template_ref body \<noteq> dep_metadata body"
    and "meta_labels (metas h ! template_ref body) \<noteq> meta_labels (metas h ! dep_metadata body)"
    and "dep_metadata body < length (metas h)"
  shows "duplicate_deployment_config h body t =
     (with_refs body (length (metas h)) (Suc (length (metas h))),
      \<lparr>metas = metas h @
         [(metas h ! dep_metadata body)
            \<lparr>meta_name := getDeploymentBaseName (meta_name (metas h ! dep_metadata body)) @ ''-'' @ t,
             meta_resource_version := [],
             meta_labels := length (dicts h)\<rparr>,
          (metas h ! template_ref body)\<lparr>meta_labels := Suc (length (dicts h))\<rparr>],
       dicts = dicts h @
         [(dicts h ! meta_labels (metas h ! dep_metadata body))(''patch'' \<mapsto> t),
          (dicts h ! meta_labels (metas h ! template_ref body))(''patch'' \<mapsto> t)]\<rparr>)"
  using assms
  unfolding duplicate_deployment_config_def deepcopy_def
  by (cases h) (simp add: store_steps nth_append)


lemma duplicate_cases:
  assumes "dep_metadata body < length (metas h)"
    and "duplicate_deployment_config h body t = (nb, h')"
  obtains
    (same) "template_ref body = dep_metadata body"
      "nb = with_refs body (length (metas h)) (length (metas h))"
      "metas h' = metas h @
         [(metas h ! dep_metadata body)
            \<lparr>meta_name := getDeploymentBaseName (meta_name (metas h ! dep_metadata body)) @ ''-'' @ t,
             meta_resource_version := [],
             meta_labels := length (dicts h)\<rparr>]"
      "dicts h' = dicts h @
         [(dicts h ! meta_labels (metas h ! dep_metadata body))(''patch'' \<mapsto> t)]"
  | (shared) "template_ref body \<noteq> dep_metadata body"
      "nb = with_refs body (length (metas h)) (Suc (length (metas h)))"
      "metas h' = metas h @
         [(metas h ! dep_metadata body)
            \<lparr>meta_name := getDeploymentBaseName (meta_name (metas h ! dep_metadata body)) @ ''-'' @ t,
             meta_resource_version := [],
             meta_labels := length (dicts h)\<rparr>,
          (metas h ! template_ref body)\<lparr>meta_labels := length (dicts h)\<rparr>]"
      "dicts h' = dicts h @
         [(dicts h ! meta_labels (metas h ! dep_metadata body))(''patch'' \<mapsto> t)]"
      "meta_labels (metas h ! template_ref body) = meta_labels (metas h ! dep_metadata body)"
  | (tree) "template_ref body \<noteq> dep_metadata body"
      "nb = with_refs body (length (metas h)) (Suc (length (metas h)))"
      "metas h' = metas h @
         [(metas h ! dep_metadata body)
            \<lparr>meta_name := getDeploymentBaseName (meta_name (metas h ! dep_metadata body)) @ ''-'' @ t,
             meta_resource_version := [],
             meta_labels := length (dicts h)\<rparr>,
          (metas h ! template_ref body)\<lparr>meta_labels := Suc (length (dicts h))\<rparr>]"
      "dicts h' = dicts h @
         [(dicts h ! meta_labels (metas h ! dep_metadata body))(''patch'' \<mapsto> t),
          (dicts h ! meta_labels (metas h ! template_ref body))(''patch'' \<mapsto> t)]"
proof (cases "template_ref body = dep_metadata body")
  case True
  with assms duplicate_same_meta [of body h t] same show ?thesis by auto
next
  case False
  show ?thesis
  proof (cases "meta_labels (metas h ! template_ref body) = meta_labels (metas h ! dep_metadata body)")
    case True
    with False assms duplicate_shared_dict [of body h t] shared show ?thesis by auto
  next
    case ne: False
    with False assms duplicate_tree [of body h t] tree show ?thesis by auto
  qed
qed

lemma duplicate_extends:
  assumes "dep_metadata body < length (metas h)"
    and "duplicate_deployment_config h body t = (nb, h')"
  shows "\<exists>ms ds. metas h' = metas h @ ms \<and> dicts h' = dicts h @ ds"
  using assms by (cases rule: duplicate_cases) auto

lemma read_meta_frame:
  assumes "valid_meta h r" and "metas h' = metas h @ ms" and "dicts h' = dicts h @ ds"
  shows "read_meta h' r = read_meta h r" and "valid_meta h' r"
  using assms by (simp_all add: read_meta_def valid_meta_def nth_append)

lemma manifest_of_frame:
  assumes "valid h d" and "metas h' = metas h @ ms" and "dicts h' = dicts h @ ds"
  shows "manifest_of h' d = manifest_of h d" and "valid h' d"
  using assms read_meta_frame [of h _ h' ms ds]
  by (simp_all add: manifest_of_def valid_def)

lemma template_ref_with_refs [simp]: "template_ref (with_refs d m tm) = tm"
  by (simp add: template_ref_def with_refs_def)

lemma dep_metadata_with_refs [simp]: "dep_metadata (with_refs d m tm) = m"
  by (simp add: with_refs_def)

lemma with_refs_with_refs [simp]: "with_refs (with_refs d a b) m tm = with_refs d m tm"
  by (simp add: with_refs_def)

lemma duplicate_valid:
  assumes "valid h body" and "duplicate_deployment_config h body t = (nb, h')"
  shows "valid h' nb"
proof -
  from assms(1) have m: "dep_metadata body < length (metas h)"
    by (simp add: valid_def valid_meta_def)
  from m assms(2) show ?thesis
    by (cases rule: duplicate_cases) (simp_all add: valid_def valid_meta_def nth_append)
qed

lemma duplicate_top:
  assumes "valid h body" and "duplicate_deployment_config h body t = (nb, h')"
  shows "read_meta h' (dep_metadata nb) =
           (read_meta h (dep_metadata body))
             \<lparr>meta_name := getDeploymentBaseName (meta_name (read_meta h (dep_metadata body))) @ ''-'' @ t,
              meta_resource_version := [],
              meta_labels := (meta_labels (read_meta h (dep_metadata body)))(''patch'' \<mapsto> t)\<rparr>"
    and "meta_labels (read_meta h' (template_ref nb)) ''patch'' = Some t"
proof -
  from assms(1) have m: "dep_metadata body < length (metas h)"
    by (simp add: valid_def valid_meta_def)
  from m assms(2) show "read_meta h' (dep_metadata nb) =
           (read_meta h (dep_metadata body))
             \<lparr>meta_name := getDeploymentBaseName (meta_name (read_meta h (dep_metadata body))) @ ''-'' @ t,
              meta_resource_version := [],
              meta_labels := (meta_labels (read_meta h (dep_metadata body)))(''patch'' \<mapsto> t)\<rparr>"
    by (cases rule: duplicate_cases) (simp_all add: read_meta_def nth_append)
  from m assms(2) show "meta_labels (read_meta h' (template_ref nb)) ''patch'' = Some t"
    by (cases rule: duplicate_cases) (simp_all add: read_meta_def nth_append)
qed

lemma duplicate_manifest:
  assumes "valid h body" and "template_ref body \<noteq> dep_metadata body"
    and "duplicate_deployment_config h body t = (nb, h')"
  shows "manifest_of h' nb = spec_duplicate (manifest_of h body) t"
proof -
  from assms(1) have m: "dep_metadata body < length (metas h)"
    by (simp add: valid_def valid_meta_def)
  from m assms(3) show ?thesis
  proof (cases rule: duplicate_cases)
    case same
    with assms(2) show ?thesis by simp
  next
    case shared
    then show ?thesis
      by (simp add: manifest_of_def spec_duplicate_def spec_versionedName_def read_meta_def
          nth_append with_refs_def template_ref_def)
  next
    case tree
    then show ?thesis
      by (simp add: manifest_of_def spec_duplicate_def spec_versionedName_def read_meta_def
          nth_append with_refs_def template_ref_def)
  qed
qed


subsection \<open>The example deployment\<close>

lemma app1_loaded:
  "app1 = with_refs app1_manifest 0 1"
  "metas app1_store =
     [\<lparr>meta_name = ''app-1'', meta_namespace = ''default'',
       meta_resource_version = ''42'', meta_labels = 0\<rparr>,
      \<lparr>meta_name = [], meta_namespace = [], meta_resource_version = [], meta_labels = 1\<rparr>]"
  "dicts app1_store = [[''app'' \<mapsto> ''myapp''], [''app'' \<mapsto> ''myapp'']]"
  by (simp_all add: app1_def app1_store_def load_deployment_def load_meta_def new_dict_def
      new_meta_def empty_store_def app1_manifest_def with_refs_def)

lemma app1_valid: "valid app1_store app1"
  by (simp add: valid_def valid_meta_def app1_loaded)

lemma app1_tree: "template_ref app1 \<noteq> dep_metadata app1"
  by (simp add: app1_loaded)

lemma app1_read: "manifest_of app1_store app1 = app1_manifest"
  by (simp add: manifest_of_def read_meta_def app1_loaded with_refs_def template_ref_def
      app1_manifest_def)

subsection \<open>Claim C8\<close>

text \<open>
  C8: \<^verbatim>\<open>duplicate_deployment_config\<close> never mutates its input. For a valid input
  object \<open>s\<close> in a store \<open>h\<close> and any timestamp, the store \<open>h'\<close> after the call holds
  the same name, the same resource version and the same two label maps for \<open>s\<close> as
  \<open>h\<close> did; indeed everything read through \<open>s\<close> is as before.
\<close>

theorem duplicate_leaves_input_unchanged:
  assumes "valid h s" and "duplicate_deployment_config h s t = (d, h')"
  shows "manifest_of h' s = manifest_of h s \<and>
         meta_name (metas h' ! dep_metadata s) = meta_name (metas h ! dep_metadata s) \<and>
         meta_resource_version (metas h' ! dep_metadata s) =
           meta_resource_version (metas h ! dep_metadata s) \<and>
         dicts h' ! meta_labels (metas h' ! dep_metadata s) =
           dicts h ! meta_labels (metas h ! dep_metadata s) \<and>
         dicts h' ! meta_labels (metas h' ! template_ref s) =
           dicts h ! meta_labels (metas h ! template_ref s)"
proof -
  from assms(1) have m: "dep_metadata s < length (metas h)"
    by (simp add: valid_def valid_meta_def)
  from duplicate_extends [OF m assms(2)] obtain ms ds
    where ext: "metas h' = metas h @ ms" "dicts h' = dicts h @ ds" by blast
  have "manifest_of h' s = manifest_of h s"
    using manifest_of_frame(1) [OF assms(1) ext] .
  moreover from assms(1) have "read_meta h' (dep_metadata s) = read_meta h (dep_metadata s)"
      "read_meta h' (template_ref s) = read_meta h (template_ref s)"
    using read_meta_frame(1) [OF _ ext] by (simp_all add: valid_def)
  ultimately show ?thesis
    by (simp add: read_meta_def)
qed


theorem duplicate_leaves_input_unchanged_witness:
  "valid app1_store app1 \<and>
   manifest_of (snd (duplicate_deployment_config app1_store app1 ''20191011134834'')) app1 =
     app1_manifest \<and>
   meta_name (metas (snd (duplicate_deployment_config app1_store app1 ''20191011134834'')) !
     dep_metadata app1) = ''app-1''"
proof -
  obtain d h' where dup: "duplicate_deployment_config app1_store app1 ''20191011134834'' = (d, h')"
    by (cases "duplicate_deployment_config app1_store app1 ''20191011134834''")
  from duplicate_leaves_input_unchanged [OF app1_valid dup]
  have a: "manifest_of h' app1 = manifest_of app1_store app1"
    and b: "meta_name (metas h' ! dep_metadata app1) = meta_name (metas app1_store ! dep_metadata app1)"
    by simp_all
  have c: "meta_name (metas app1_store ! dep_metadata app1) = ''app-1''"
    by (simp add: app1_loaded)
  from a b c app1_valid show ?thesis
    by (simp add: dup app1_read)
qed

subsection \<open>Claim C7\<close>

text \<open>
  C7: for every input spec \<open>s\<close> and timestamp \<open>t\<close>, the duplicate's name is the base
  name of \<open>s\<close>'s name, a dash and \<open>t\<close>; its resource version is the empty string; its
  label map and its pod template's label map hold \<open>patch = t\<close>; and every other field
  is as in \<open>s\<close>: the duplicate, read out of the store, is the specification's duplicate
  of \<open>s\<close>. (Should the pod template's metadata be the very object that is the
  deployment's metadata, the copy shares it as well, and the new name and resource
  version then show under the template too.)
\<close>

theorem duplicate_output:
  assumes "valid h s" and "duplicate_deployment_config h s t = (d, h')"
  shows "meta_name (dep_metadata (manifest_of h' d)) =
           getDeploymentBaseName (meta_name (dep_metadata (manifest_of h s))) @ ''-'' @ t \<and>
         meta_resource_version (dep_metadata (manifest_of h' d)) = [] \<and>
         meta_labels (dep_metadata (manifest_of h' d)) ''patch'' = Some t \<and>
         meta_labels (tmpl_metadata (spec_template (dep_spec (manifest_of h' d)))) ''patch'' = Some t \<and>
         manifest_of h' d =
           (if template_ref s = dep_metadata s
            then with_refs (manifest_of h s)
                   (dep_metadata (spec_duplicate (manifest_of h s) t))
                   (dep_metadata (spec_duplicate (manifest_of h s) t))
            else spec_duplicate (manifest_of h s) t)"
proof (intro conjI)
  have top: "dep_metadata (manifest_of h' d) = read_meta h' (dep_metadata d)"
    and tmpl: "tmpl_metadata (spec_template (dep_spec (manifest_of h' d))) =
      read_meta h' (template_ref d)"
    and old: "dep_metadata (manifest_of h s) = read_meta h (dep_metadata s)"
    by (simp_all add: manifest_of_def with_refs_def)
  note facts = duplicate_top [OF assms]
  show "meta_name (dep_metadata (manifest_of h' d)) =
      getDeploymentBaseName (meta_name (dep_metadata (manifest_of h s))) @ ''-'' @ t"
    unfolding top old facts(1) by simp
  show "meta_resource_version (dep_metadata (manifest_of h' d)) = []"
    unfolding top facts(1) by simp
  show "meta_labels (dep_metadata (manifest_of h' d)) ''patch'' = Some t"
    unfolding top facts(1) by simp
  show "meta_labels (tmpl_metadata (spec_template (dep_spec (manifest_of h' d)))) ''patch'' = Some t"
    unfolding tmpl by (rule facts(2))
  from assms(1) have m: "dep_metadata s < length (metas h)"
    by (simp add: valid_def valid_meta_def)
  show "manifest_of h' d =
      (if template_ref s = dep_metadata s
       then with_refs (manifest_of h s)
              (dep_metadata (spec_duplicate (manifest_of h s) t))
              (dep_metadata (spec_duplicate (manifest_of h s) t))
       else spec_duplicate (manifest_of h s) t)"
  proof (cases "template_ref s = dep_metadata s")
    case True
    from m assms(2) show ?thesis
    proof (cases rule: duplicate_cases)
      case same
      then show ?thesis
        by (simp add: manifest_of_def spec_duplicate_def spec_versionedName_def read_meta_def
            nth_append with_refs_def template_ref_def)
    next
      case shared
      with True show ?thesis by simp
    next
      case tree
      with True show ?thesis by simp
    qed
  next
    case False
    with duplicate_manifest [OF assms(1) False assms(2)] show ?thesis by simp
  qed
qed

theorem duplicate_output_witness:
  "valid app1_store app1 \<and>
   manifest_of (snd (duplicate_deployment_config app1_store app1 ''20191011134834''))
     (fst (duplicate_deployment_config app1_store app1 ''20191011134834'')) =
     spec_duplicate app1_manifest ''20191011134834'' \<and>
   meta_name (dep_metadata (spec_duplicate app1_manifest ''20191011134834'')) =
     ''app-20191011134834''"
proof -
  obtain d h' where dup: "duplicate_deployment_config app1_store app1 ''20191011134834'' = (d, h')"
    by (cases "duplicate_deployment_config app1_store app1 ''20191011134834''")
  have "getDeploymentBaseName ''app-1'' = ''app''"
    by (simp add: getDeploymentBaseName_def is_digit_def at_dollar_def)
  then have n: "meta_name (dep_metadata (spec_duplicate app1_manifest ''20191011134834'')) =
     ''app-20191011134834''"
    by (simp add: spec_duplicate_def spec_versionedName_def app1_manifest_def with_refs_def)
  from duplicate_output [OF app1_valid dup] app1_tree
  have "manifest_of h' d = spec_duplicate (manifest_of app1_store app1) ''20191011134834''"
    by simp
  with n app1_valid show ?thesis
    by (simp add: dup app1_read)
qed

subsection \<open>Claim C10\<close>

text \<open>
  C10: duplication preserves the base name. For every input spec \<open>s\<close> and every
  non-empty string of digits \<open>t\<close>, the base name of the duplicate's name is the base
  name of \<open>s\<close>'s name.
\<close>

theorem duplicate_preserves_base_name:
  assumes "valid h s" and "digit_string t" and "duplicate_deployment_config h s t = (d, h')"
  shows "getDeploymentBaseName (meta_name (metas h' ! dep_metadata d)) =
         getDeploymentBaseName (meta_name (metas h ! dep_metadata s))"
proof -
  from duplicate_top(1) [OF assms(1,3)]
  have "meta_name (read_meta h' (dep_metadata d)) =
          getDeploymentBaseName (meta_name (read_meta h (dep_metadata s))) @ ''-'' @ t"
    by simp
  then have "meta_name (metas h' ! dep_metadata d) =
          getDeploymentBaseName (meta_name (metas h ! dep_metadata s)) @ CHR ''-'' # t"
    by (simp add: read_meta_def)
  then show ?thesis
    using re_sub_append_version [OF assms(2)] by (simp add: getDeploymentBaseName_def)
qed

theorem duplicate_preserves_base_name_witness:
  "valid app1_store app1 \<and> digit_string ''20191011134834'' \<and>
   getDeploymentBaseName
     (meta_name (metas (snd (duplicate_deployment_config app1_store app1 ''20191011134834'')) !
        dep_metadata (fst (duplicate_deployment_config app1_store app1 ''20191011134834'')))) =
   ''app''"
proof -
  obtain d h' where dup: "duplicate_deployment_config app1_store app1 ''20191011134834'' = (d, h')"
    by (cases "duplicate_deployment_config app1_store app1 ''20191011134834''")
  have ds: "digit_string ''20191011134834''"
    by (simp add: digit_string_def is_digit_def)
  have "getDeploymentBaseName ''app-1'' = ''app''"
    by (simp add: getDeploymentBaseName_def is_digit_def at_dollar_def)
  moreover have "meta_name (metas app1_store ! dep_metadata app1) = ''app-1''"
    by (simp add: app1_loaded)
  ultimately have "getDeploymentBaseName (meta_name (metas h' ! dep_metadata d)) = ''app''"
    using duplicate_preserves_base_name [OF app1_valid ds dup] by simp
  with app1_valid ds show ?thesis
    by (simp add: dup)
qed


section \<open>Properties of the readiness watcher\<close>

text \<open>
  The loop returns at the first item of the feed that it does not pass over, with that
  item's outcome, and it never returns when it passes over every item.
\<close>

lemma watch_events_stop:
  assumes "\<not> passed name (stream i)"
  shows "watch_events stream i name = Some (outcome_at (stream i))"
  using assms
  by (subst watch_events.simps) (auto simp: passed_def outcome_at_def Let_def split: feed_item.splits)

lemma watch_events_pass:
  assumes "passed name (stream i)"
  shows "watch_events stream i name = watch_events stream (Suc i) name"
  using assms
  by (subst watch_events.simps) (auto simp: passed_def Let_def split: feed_item.splits)

lemma watch_events_returns:
  assumes "\<forall>j<k. passed name (stream (i + j))" and "\<not> passed name (stream (i + k))"
  shows "watch_events stream i name = Some (outcome_at (stream (i + k)))"
  using assms
proof (induction k arbitrary: i)
  case 0
  then show ?case by (simp add: watch_events_stop)
next
  case (Suc k)
  from Suc.prems(1) [rule_format, of 0] have p: "passed name (stream i)" by simp
  have "\<forall>j<k. passed name (stream (Suc i + j))"
  proof (intro allI impI)
    fix j assume "j < k"
    with Suc.prems(1) [rule_format, of "Suc j"] show "passed name (stream (Suc i + j))" by simp
  qed
  moreover have "\<not> passed name (stream (Suc i + k))" using Suc.prems(2) by simp
  ultimately have "watch_events stream (Suc i) name = Some (outcome_at (stream (Suc i + k)))"
    by (rule Suc.IH)
  with p show ?case by (simp add: watch_events_pass)
qed

lemma watch_events_Some:
  assumes "watch_events stream i name = Some r"
  shows "\<exists>k. (\<forall>j<k. passed name (stream (i + j))) \<and> \<not> passed name (stream (i + k)) \<and>
             r = outcome_at (stream (i + k))"
  using assms
proof (induction rule: watch_events.raw_induct [rotated 1, consumes 1])
  case (1 watch_events' stream i name r)
  show ?case
  proof (cases "passed name (stream i)")
    case False
    with 1(2) have "r = outcome_at (stream i)"
      by (auto simp: passed_def outcome_at_def Let_def split: feed_item.splits if_splits)
    with False have "(\<forall>j<0. passed name (stream (i + j))) \<and> \<not> passed name (stream (i + 0)) \<and>
             r = outcome_at (stream (i + 0))" by simp
    then show ?thesis by (rule exI)
  next
    case True
    then obtain event where ev: "stream i = Event event"
      and np: "\<not> (meta_name (dep_metadata (event_object event)) = name \<and>
             replicas_ready (dep_status (event_object event)))"
      by (cases "stream i") (simp_all add: passed_def)
    from 1(2) np have "watch_events' stream (Suc i) name = Some r"
      unfolding ev by (simp add: Let_def split: if_splits)
    then have "\<exists>k. (\<forall>j<k. passed name (stream (Suc i + j))) \<and>
        \<not> passed name (stream (Suc i + k)) \<and> r = outcome_at (stream (Suc i + k))"
      by (rule 1(1))
    then obtain k where k1: "\<forall>j<k. passed name (stream (Suc i + j))"
      and k2: "\<not> passed name (stream (Suc i + k))" and k3: "r = outcome_at (stream (Suc i + k))"
      by (elim exE conjE)
    have "\<forall>j<Suc k. passed name (stream (i + j))"
    proof (intro allI impI)
      fix j assume j: "j < Suc k"
      show "passed name (stream (i + j))"
      proof (cases j)
        case 0 with True show ?thesis by simp
      next
        case (Suc j')
        with j have "j' < k" by simp
        with k1 have "passed name (stream (Suc i + j'))" by blast
        with Suc show ?thesis by simp
      qed
    qed
    with k2 k3 have "(\<forall>j<Suc k. passed name (stream (i + j))) \<and>
        \<not> passed name (stream (i + Suc k)) \<and> r = outcome_at (stream (i + Suc k))" by simp
    then show ?thesis by (rule exI)
  qed
qed

lemma watch_events_None:
  "watch_events stream i name = None \<longleftrightarrow> (\<forall>j. passed name (stream (i + j)))"
proof
  assume n: "watch_events stream i name = None"
  show "\<forall>j. passed name (stream (i + j))"
  proof (rule ccontr)
    assume "\<not> (\<forall>j. passed name (stream (i + j)))"
    then obtain j where j: "\<not> passed name (stream (i + j))" by blast
    define k where "k = (LEAST j. \<not> passed name (stream (i + j)))"
    have "\<not> passed name (stream (i + k))" unfolding k_def using j by (rule LeastI)
    moreover have "\<forall>j<k. passed name (stream (i + j))"
      unfolding k_def using not_less_Least by blast
    ultimately show False using watch_events_returns [of k name stream i] n by simp
  qed
next
  assume a: "\<forall>j. passed name (stream (i + j))"
  show "watch_events stream i name = None"
  proof (cases "watch_events stream i name")
    case (Some r)
    from watch_events_Some [OF this] a show ?thesis by blast
  qed simp
qed


lemma watch_namespaced_deployment_result:
  "watch_namespaced_deployment ext name ns s =
     (watch_events (api_watch_namespaced_deployment ext (calls s) ns) 0 name,
      case watch_events (api_watch_namespaced_deployment ext (calls s) ns) 0 name of
        Some (Inr v) \<Rightarrow> record_call (WatchReturned name v) (record_call (WatchDeployment ns) s)
      | _ \<Rightarrow> record_call (WatchDeployment ns) s)"
  by (simp add: watch_namespaced_deployment_def Let_def split: option.splits sum.splits)

subsection \<open>Claim C4\<close>

text \<open>
  C4 says that the wait has one outcome only, the ready deployment, and that it
  suspends for ever when the feed ends without one. The first half of it holds
  (\<open>watch_events_returns\<close>, \<open>watch_events_Some\<close>: a deployment is returned exactly at
  the first event that shows the named deployment ready). The second does not: when
  the feed ends, the \<^verbatim>\<open>for\<close> loop ends and the function returns \<^verbatim>\<open>None\<close>. Here the
  feed announces the new deployment with no ready replica and then ends.
\<close>

theorem watch_returns_when_feed_ends:
  "watch_namespaced_deployment closing_cluster ''app-20191011134834'' ''default''
     (record_call (CreateDeployment ''default'' (spec_duplicate app1_manifest ''20191011134834''))
        fresh) =
   (Some (Inr None),
    \<lparr>heap = empty_store,
     calls = [CreateDeployment ''default'' (spec_duplicate app1_manifest ''20191011134834''),
              WatchDeployment ''default'',
              WatchReturned ''app-20191011134834'' None]\<rparr>)"
proof -
  let ?body = "spec_duplicate app1_manifest ''20191011134834''"
  let ?s = "record_call (CreateDeployment ''default'' ?body) fresh"
  let ?feed = "api_watch_namespaced_deployment closing_cluster (calls ?s) ''default''"
  have feed: "?feed = feed_of [Event \<lparr>event_type = ''ADDED'', event_object = with_status ?body None\<rparr>]"
    by (simp add: closing_cluster_def healthy_cluster_def record_call_def fresh_def)
  have p0: "passed ''app-20191011134834'' (?feed 0)"
    unfolding feed
    by (simp add: feed_of_def passed_def with_status_def replicas_ready_def)
  have p1: "\<not> passed ''app-20191011134834'' (?feed 1)"
    unfolding feed by (simp add: feed_of_def passed_def)
  have "watch_events ?feed 0 ''app-20191011134834'' = Some (outcome_at (?feed (0 + 1)))"
    by (rule watch_events_returns) (use p0 p1 in simp_all)
  also have "outcome_at (?feed (0 + 1)) = Inr None"
    unfolding feed by (simp add: feed_of_def outcome_at_def)
  finally have w: "watch_events ?feed 0 ''app-20191011134834'' = Some (Inr None)" .
  show ?thesis
    unfolding watch_namespaced_deployment_result w
    by (simp add: record_call_def fresh_def)
qed


section \<open>Properties of the rollout\<close>

subsection \<open>Stores and loading\<close>

lemma extends_refl: "extends h h"
  by (simp add: extends_def)

lemma extends_trans: "extends h1 h2 \<Longrightarrow> extends h2 h3 \<Longrightarrow> extends h1 h3"
  unfolding extends_def by (metis append_assoc)

lemma extends_valid:
  assumes "extends h h'" and "valid h d"
  shows "valid h' d" and "manifest_of h' d = manifest_of h d"
    and "meta_name (metas h' ! dep_metadata d) = meta_name (metas h ! dep_metadata d)"
proof -
  from assms(1) obtain ms ds where e: "metas h' = metas h @ ms" "dicts h' = dicts h @ ds"
    unfolding extends_def by blast
  show "valid h' d" by (rule manifest_of_frame(2) [OF assms(2) e])
  show "manifest_of h' d = manifest_of h d" by (rule manifest_of_frame(1) [OF assms(2) e])
  from assms(2) show "meta_name (metas h' ! dep_metadata d) = meta_name (metas h ! dep_metadata d)"
    by (simp add: e valid_def valid_meta_def nth_append)
qed

lemma extends_valid_all:
  assumes "extends h h'" and "list_all (valid h) ds"
  shows "list_all (valid h') ds" and "map (manifest_of h') ds = map (manifest_of h) ds"
  using assms extends_valid(1,2) [OF assms(1)]
  by (simp_all add: list_all_iff)

lemma duplicate_extends_store:
  assumes "valid h body" and "duplicate_deployment_config h body t = (nb, h')"
  shows "extends h h'"
proof -
  from assms(1) have "dep_metadata body < length (metas h)"
    by (simp add: valid_def valid_meta_def)
  from duplicate_extends [OF this assms(2)] show ?thesis by (simp add: extends_def)
qed

lemma load_meta_result:
  "load_meta h m =
     (length (metas h),
      \<lparr>metas = metas h @
         [\<lparr>meta_name = meta_name m, meta_namespace = meta_namespace m,
           meta_resource_version = meta_resource_version m, meta_labels = length (dicts h)\<rparr>],
       dicts = dicts h @ [meta_labels m]\<rparr>)"
  by (cases h) (simp add: load_meta_def new_dict_def new_meta_def)

lemma with_refs_same: "with_refs d (dep_metadata d) (tmpl_metadata (spec_template (dep_spec d))) = d"
  by (simp add: with_refs_def)

lemma load_deployment_props:
  assumes "load_deployment h d = (x, h')"
  shows "extends h h'" and "valid h' x" and "tree_shaped x" and "manifest_of h' x = d"
proof -
  from assms have x: "x = with_refs d (length (metas h)) (Suc (length (metas h)))"
    and m: "metas h' = metas h @
         [\<lparr>meta_name = meta_name (dep_metadata d), meta_namespace = meta_namespace (dep_metadata d),
           meta_resource_version = meta_resource_version (dep_metadata d),
           meta_labels = length (dicts h)\<rparr>,
          \<lparr>meta_name = meta_name (tmpl_metadata (spec_template (dep_spec d))),
           meta_namespace = meta_namespace (tmpl_metadata (spec_template (dep_spec d))),
           meta_resource_version = meta_resource_version (tmpl_metadata (spec_template (dep_spec d))),
           meta_labels = Suc (length (dicts h))\<rparr>]"
    and l: "dicts h' = dicts h @
         [meta_labels (dep_metadata d), meta_labels (tmpl_metadata (spec_template (dep_spec d)))]"
    by (auto simp: load_deployment_def load_meta_result)
  show "extends h h'" using m l by (simp add: extends_def)
  show "valid h' x" by (simp add: x m l valid_def valid_meta_def nth_append)
  show "tree_shaped x" by (simp add: x tree_shaped_def)
  have "read_meta h' (length (metas h)) = dep_metadata d"
    by (simp add: read_meta_def m l nth_append)
  moreover have "read_meta h' (Suc (length (metas h))) = tmpl_metadata (spec_template (dep_spec d))"
    by (simp add: read_meta_def m l nth_append)
  ultimately show "manifest_of h' x = d"
    by (simp add: manifest_of_def x with_refs_same)
qed

lemma load_deployments_props:
  assumes "load_deployments h ds = (xs, h')"
  shows "extends h h' \<and> list_all (valid h') xs \<and> list_all tree_shaped xs \<and>
         map (manifest_of h') xs = ds"
  using assms
proof (induction ds arbitrary: h xs h')
  case Nil
  then show ?case by (simp add: extends_refl)
next
  case (Cons d ds)
  obtain x h1 where x: "load_deployment h d = (x, h1)" by (cases "load_deployment h d")
  obtain ys h2 where ys: "load_deployments h1 ds = (ys, h2)" by (cases "load_deployments h1 ds")
  from Cons.prems x ys have xs: "xs = x # ys" and h': "h' = h2" by simp_all
  note px = load_deployment_props [OF x]
  from Cons.IH [OF ys] have e: "extends h1 h2" and v: "list_all (valid h2) ys"
    and t: "list_all tree_shaped ys" and m: "map (manifest_of h2) ys = ds" by simp_all
  from extends_valid(1,2) [OF e px(2)] px(4) have "valid h2 x" "manifest_of h2 x = d" by simp_all
  with extends_trans [OF px(1) e] v t m px(3) show ?case by (simp add: xs h')
qed


subsection \<open>The steps of the duplication loop\<close>

lemma create_result:
  assumes "create_namespaced_deployment ext body ns s = (r, s')"
  shows "s' = record_call (CreateDeployment ns (manifest_of (heap s) body)) s"
    and "r = Inl e \<Longrightarrow> \<exists>x. e = ApiException x"
  using assms
  by (auto simp: create_namespaced_deployment_def Let_def split: sum.splits)

lemma watch_events_error:
  assumes "watch_events stream i name = Some (Inl e)"
  shows "\<exists>x. e = StreamException x"
proof -
  from watch_events_Some [OF assms] obtain k where "Inl e = outcome_at (stream (i + k))" by blast
  then show ?thesis by (auto simp: outcome_at_def split: feed_item.splits)
qed

lemma watch_events_ready:
  assumes "watch_events stream i name = Some (Inr (Some d))"
  shows "observed_ready name (Some d)"
proof -
  from watch_events_Some [OF assms] obtain k where n: "\<not> passed name (stream (i + k))"
    and o: "Inr (Some d) = outcome_at (stream (i + k))" by blast
  then show ?thesis
    by (auto simp: outcome_at_def passed_def observed_ready_def split: feed_item.splits)
qed

lemma watch_result:
  assumes "watch_namespaced_deployment ext name ns s = (r, s')"
  shows "heap s' = heap s"
    and "r = Some (Inr v) \<Longrightarrow> calls s' = calls s @ [WatchDeployment ns, WatchReturned name v]"
    and "r = Some (Inr v) \<Longrightarrow> v = None \<or> observed_ready name v"
    and "r = Some (Inl e) \<Longrightarrow> calls s' = calls s @ [WatchDeployment ns] \<and> (\<exists>x. e = StreamException x)"
    and "r = None \<Longrightarrow> calls s' = calls s @ [WatchDeployment ns]"
proof -
  let ?w = "watch_events (api_watch_namespaced_deployment ext (calls s) ns) 0 name"
  from assms have r: "?w = r"
    by (auto simp: watch_namespaced_deployment_def Let_def split: option.splits sum.splits)
  from assms show "heap s' = heap s"
    by (auto simp: watch_namespaced_deployment_def Let_def record_call_def
        split: option.splits sum.splits)
  from assms show "r = Some (Inr v) \<Longrightarrow> calls s' = calls s @ [WatchDeployment ns, WatchReturned name v]"
    by (auto simp: watch_namespaced_deployment_def Let_def record_call_def
        split: option.splits sum.splits)
  from assms show "r = None \<Longrightarrow> calls s' = calls s @ [WatchDeployment ns]"
    by (auto simp: watch_namespaced_deployment_def Let_def record_call_def
        split: option.splits sum.splits)
  show "r = Some (Inr v) \<Longrightarrow> v = None \<or> observed_ready name v"
  proof (cases v)
    case (Some d)
    assume "r = Some (Inr v)"
    with r Some have "?w = Some (Inr (Some d))" by simp
    from watch_events_ready [OF this] Some show ?thesis by simp
  qed simp
  show "r = Some (Inl e) \<Longrightarrow> calls s' = calls s @ [WatchDeployment ns] \<and> (\<exists>x. e = StreamException x)"
  proof -
    assume a: "r = Some (Inl e)"
    with r have "?w = Some (Inl e)" by simp
    from watch_events_error [OF this] have "\<exists>x. e = StreamException x" .
    moreover from a assms have "calls s' = calls s @ [WatchDeployment ns]"
      by (auto simp: watch_namespaced_deployment_def Let_def record_call_def
          split: option.splits sum.splits)
    ultimately show ?thesis by simp
  qed
qed


lemma duplicate_step:
  assumes "valid h dep" and "tree_shaped dep"
    and "duplicate_deployment_config h dep ts = (copy, h')"
  shows "extends h h'"
    and "manifest_of h' copy = spec_duplicate (manifest_of h dep) ts"
    and "meta_name (metas h' ! dep_metadata copy) =
           meta_name (dep_metadata (spec_duplicate (manifest_of h dep) ts))"
proof -
  show "extends h h'" by (rule duplicate_extends_store [OF assms(1,3)])
  from assms(2) have t: "template_ref dep \<noteq> dep_metadata dep" by (simp add: tree_shaped_def)
  show m: "manifest_of h' copy = spec_duplicate (manifest_of h dep) ts"
    by (rule duplicate_manifest [OF assms(1) t assms(3)])
  have "meta_name (metas h' ! dep_metadata copy) = meta_name (dep_metadata (manifest_of h' copy))"
    by (simp add: manifest_of_def read_meta_def)
  with m show "meta_name (metas h' ! dep_metadata copy) =
           meta_name (dep_metadata (spec_duplicate (manifest_of h dep) ts))" by simp
qed

lemma duplicate_loop_returns:
  assumes "rollout_duplicate_loop ext ns ts deps s = (Some (Inr u), s')"
    and "list_all (valid (heap s)) deps" and "list_all tree_shaped deps"
  shows "extends (heap s) (heap s') \<and>
         (\<exists>ws. list_all2 (\<lambda>m w. w = None \<or>
                     observed_ready (meta_name (dep_metadata (spec_duplicate m ts))) w)
                  (map (manifest_of (heap s)) deps) ws \<and>
               calls s' = calls s @
                 concat (map2 (duplicate_calls ns ts) (map (manifest_of (heap s)) deps) ws))"
  using assms
proof (induction deps arbitrary: s)
  case Nil
  then show ?case by (simp add: extends_refl)
next
  case (Cons dep rest)
  from Cons.prems(2,3) have v: "valid (heap s) dep" and t: "tree_shaped dep"
    and vr: "list_all (valid (heap s)) rest" and tr: "list_all tree_shaped rest" by simp_all
  obtain copy h where dup: "duplicate_deployment_config (heap s) dep ts = (copy, h)"
    by (cases "duplicate_deployment_config (heap s) dep ts")
  obtain r1 s1 where cr: "create_namespaced_deployment ext copy ns (s\<lparr>heap := h\<rparr>) = (r1, s1)"
    by (cases "create_namespaced_deployment ext copy ns (s\<lparr>heap := h\<rparr>)")
  let ?name = "meta_name (metas (heap s1) ! dep_metadata copy)"
  obtain r2 s2 where wa: "watch_namespaced_deployment ext ?name ns s1 = (r2, s2)"
    by (cases "watch_namespaced_deployment ext ?name ns s1")
  from Cons.prems(1) dup cr wa obtain w
    where r2: "r2 = Some (Inr w)"
      and loop: "rollout_duplicate_loop ext ns ts rest s2 = (Some (Inr u), s')"
    by (auto split: sum.splits option.splits)
  note step = duplicate_step [OF v t dup]
  let ?m = "manifest_of (heap s) dep"
  from create_result(1) [OF cr] step(2)
  have s1: "heap s1 = h" "calls s1 = calls s @ [CreateDeployment ns (spec_duplicate ?m ts)]"
    by (simp_all add: record_call_def)
  from step(3) s1(1) have name: "?name = meta_name (dep_metadata (spec_duplicate ?m ts))" by simp
  from watch_result(1) [OF wa] watch_result(2,3) [OF wa, of w] r2 s1 name
  have s2: "heap s2 = h" "calls s2 = calls s @ duplicate_calls ns ts ?m w"
    and ow: "w = None \<or> observed_ready (meta_name (dep_metadata (spec_duplicate ?m ts))) w"
    by (simp_all add: duplicate_calls_def)
  from extends_valid_all [OF step(1) vr] s2(1)
  have vr2: "list_all (valid (heap s2)) rest"
    and mr: "map (manifest_of (heap s2)) rest = map (manifest_of (heap s)) rest" by simp_all
  from Cons.IH [OF loop vr2 tr] obtain ws
    where e: "extends (heap s2) (heap s')"
      and a: "list_all2 (\<lambda>m w. w = None \<or>
                     observed_ready (meta_name (dep_metadata (spec_duplicate m ts))) w)
                  (map (manifest_of (heap s2)) rest) ws"
      and c: "calls s' = calls s2 @
                 concat (map2 (duplicate_calls ns ts) (map (manifest_of (heap s2)) rest) ws)"
    by blast
  from e s2(1) step(1) have "extends (heap s) (heap s')" by (auto intro: extends_trans)
  moreover from a ow mr
  have "list_all2 (\<lambda>m w. w = None \<or>
                     observed_ready (meta_name (dep_metadata (spec_duplicate m ts))) w)
                  (map (manifest_of (heap s)) (dep # rest)) (w # ws)" by simp
  moreover from c s2(2) mr
  have "calls s' = calls s @
     concat (map2 (duplicate_calls ns ts) (map (manifest_of (heap s)) (dep # rest)) (w # ws))"
    by simp
  ultimately show ?case by blast
qed

lemma duplicate_loop_phase:
  assumes "rollout_duplicate_loop ext ns ts deps s = (r, s')"
    and "list_all (valid (heap s)) deps"
  shows "extends (heap s) (heap s') \<and>
         (\<exists>new. calls s' = calls s @ new \<and> list_all (\<lambda>c. phase c = 1) new) \<and>
         (\<forall>e. r = Some (Inl e) \<longrightarrow> (\<exists>x. e = ApiException x \<or> e = StreamException x))"
  using assms
proof (induction deps arbitrary: s)
  case Nil
  then show ?case by (auto simp: extends_refl)
next
  case (Cons dep rest)
  from Cons.prems(2) have v: "valid (heap s) dep"
    and vr: "list_all (valid (heap s)) rest" by simp_all
  obtain copy h where dup: "duplicate_deployment_config (heap s) dep ts = (copy, h)"
    by (cases "duplicate_deployment_config (heap s) dep ts")
  obtain r1 s1 where cr: "create_namespaced_deployment ext copy ns (s\<lparr>heap := h\<rparr>) = (r1, s1)"
    by (cases "create_namespaced_deployment ext copy ns (s\<lparr>heap := h\<rparr>)")
  let ?name = "meta_name (metas (heap s1) ! dep_metadata copy)"
  obtain r2 s2 where wa: "watch_namespaced_deployment ext ?name ns s1 = (r2, s2)"
    by (cases "watch_namespaced_deployment ext ?name ns s1")
  have e1: "extends (heap s) h" by (rule duplicate_extends_store [OF v dup])
  from create_result(1) [OF cr]
  have s1: "heap s1 = h" "calls s1 = calls s @ [CreateDeployment ns (manifest_of h copy)]"
    by (simp_all add: record_call_def)
  note w = watch_result [OF wa]
  show ?case
  proof (cases r1)
    case (Inl e)
    with Cons.prems(1) dup cr have "r = Some (Inl e)" "s' = s1" by simp_all
    with create_result(2) [OF cr Inl] s1 e1 show ?thesis by auto
  next
    case (Inr created)
    show ?thesis
    proof (cases r2)
      case None
      with Cons.prems(1) dup cr wa Inr have "r = None" "s' = s2" by simp_all
      with w(1) w(5) [OF None] s1 e1 show ?thesis by simp
    next
      case (Some a)
      show ?thesis
      proof (cases a)
        case (Inl e)
        with Cons.prems(1) dup cr wa Inr Some have "r = Some (Inl e)" "s' = s2" by simp_all
        with w(1) w(4) [of e] Some Inl s1 e1 show ?thesis by auto
      next
        case (Inr wv)
        with Cons.prems(1) dup cr wa \<open>r1 = Inr created\<close> Some
        have loop: "rollout_duplicate_loop ext ns ts rest s2 = (r, s')" by simp
        from w(2) [of wv] Some Inr s1
        have c2: "calls s2 = calls s @
            [CreateDeployment ns (manifest_of h copy), WatchDeployment ns, WatchReturned ?name wv]"
          by simp
        from extends_valid_all(1) [OF e1 vr] w(1) s1(1)
        have "list_all (valid (heap s2)) rest" by simp
        from Cons.IH [OF loop this] obtain new
          where e: "extends (heap s2) (heap s')" and n: "calls s' = calls s2 @ new"
            and p: "list_all (\<lambda>c. phase c = 1) new"
            and k: "\<forall>e. r = Some (Inl e) \<longrightarrow> (\<exists>x. e = ApiException x \<or> e = StreamException x)"
          by blast
        from e w(1) s1(1) e1 have "extends (heap s) (heap s')" by (auto intro: extends_trans)
        moreover from n c2 p
        have "calls s' = calls s @
            ([CreateDeployment ns (manifest_of h copy), WatchDeployment ns,
              WatchReturned ?name wv] @ new) \<and>
            list_all (\<lambda>c. phase c = 1)
              ([CreateDeployment ns (manifest_of h copy), WatchDeployment ns,
                WatchReturned ?name wv] @ new)" by simp
        ultimately show ?thesis using k by blast
      qed
    qed
  qed
qed


subsection \<open>Cutover and cleanup loops\<close>

lemma patch_result:
  assumes "patch_namespaced_service core name ts ns s = (r, s')"
  shows "heap s' = heap s"
    and "\<exists>new. calls s' = calls s @ new \<and> list_all (\<lambda>c. phase c = 2) new"
    and "r = Inr svc \<Longrightarrow> \<exists>current. calls s' = calls s @ cutover_calls ns ts name current"
    and "r = Inl e \<Longrightarrow> (\<exists>x. e = ApiException x) \<or> e = K8sServiceNotFoundError (ByName name) ns"
  using assms
  by (auto simp: patch_namespaced_service_def get_namespaced_service_def Let_def record_call_def
      cutover_calls_def split: sum.splits list.splits)

lemma patch_loop:
  assumes "rollout_patch_loop core ns ts svcs s = (r, s')"
  shows "heap s' = heap s \<and>
         (\<exists>new. calls s' = calls s @ new \<and> list_all (\<lambda>c. phase c = 2) new) \<and>
         (\<forall>e. r = Inl e \<longrightarrow>
            (\<exists>x. e = ApiException x) \<or> (\<exists>n. e = K8sServiceNotFoundError (ByName n) ns)) \<and>
         (\<forall>u. r = Inr u \<longrightarrow>
            (\<exists>currents. length currents = length svcs \<and>
               calls s' = calls s @
                 concat (map2 (cutover_calls ns ts) (map svc_name svcs) currents)))"
  using assms
proof (induction svcs arbitrary: s)
  case Nil
  then show ?case by auto
next
  case (Cons svc rest)
  obtain r1 s1 where p: "patch_namespaced_service core (svc_name svc) ts ns s = (r1, s1)"
    by (cases "patch_namespaced_service core (svc_name svc) ts ns s")
  note pr = patch_result [OF p]
  from pr(2) obtain new1 where n1: "calls s1 = calls s @ new1" "list_all (\<lambda>c. phase c = 2) new1"
    by blast
  show ?case
  proof (cases r1)
    case (Inl e)
    with Cons.prems p have "r = Inl e" "s' = s1" by simp_all
    with pr(1) pr(4) [OF Inl] n1 show ?thesis by auto
  next
    case (Inr patched)
    with Cons.prems p have loop: "rollout_patch_loop core ns ts rest s1 = (r, s')" by simp
    from pr(3) [OF Inr] obtain current
      where c1: "calls s1 = calls s @ cutover_calls ns ts (svc_name svc) current" by blast
    from Cons.IH [OF loop] obtain new
      where h: "heap s' = heap s1" and n: "calls s' = calls s1 @ new"
        and ph: "list_all (\<lambda>c. phase c = 2) new"
        and er: "\<forall>e. r = Inl e \<longrightarrow>
            (\<exists>x. e = ApiException x) \<or> (\<exists>n. e = K8sServiceNotFoundError (ByName n) ns)"
        and ok: "\<forall>u. r = Inr u \<longrightarrow>
            (\<exists>currents. length currents = length rest \<and>
               calls s' = calls s1 @
                 concat (map2 (cutover_calls ns ts) (map svc_name rest) currents))"
      by blast
    have "\<forall>u. r = Inr u \<longrightarrow>
            (\<exists>currents. length currents = length (svc # rest) \<and>
               calls s' = calls s @
                 concat (map2 (cutover_calls ns ts) (map svc_name (svc # rest)) currents))"
    proof (intro allI impI)
      fix u assume "r = Inr u"
      with ok obtain currents where "length currents = length rest"
        "calls s' = calls s1 @ concat (map2 (cutover_calls ns ts) (map svc_name rest) currents)"
        by blast
      with c1 have "length (current # currents) = length (svc # rest) \<and>
               calls s' = calls s @
                 concat (map2 (cutover_calls ns ts) (map svc_name (svc # rest)) (current # currents))"
        by simp
      then show "\<exists>currents. length currents = length (svc # rest) \<and>
               calls s' = calls s @
                 concat (map2 (cutover_calls ns ts) (map svc_name (svc # rest)) currents)"
        by (rule exI)
    qed
    moreover from n n1 ph have "calls s' = calls s @ (new1 @ new) \<and>
        list_all (\<lambda>c. phase c = 2) (new1 @ new)" by simp
    then have "\<exists>new. calls s' = calls s @ new \<and> list_all (\<lambda>c. phase c = 2) new" by (rule exI)
    ultimately show ?thesis using h pr(1) er by simp
  qed
qed

lemma cleanup_loop:
  assumes "rollout_cleanup_loop ext ns deps s = (r, s')"
  shows "heap s' = heap s \<and>
         (\<exists>k. calls s' = calls s @
            map (\<lambda>d. DeleteDeployment (meta_name (metas (heap s) ! dep_metadata d)) ns)
              (take k deps)) \<and>
         (\<forall>u. r = Inr u \<longrightarrow> calls s' = calls s @
            map (\<lambda>d. DeleteDeployment (meta_name (metas (heap s) ! dep_metadata d)) ns) deps) \<and>
         (\<forall>e. r = Inl e \<longrightarrow> (\<exists>x. e = ApiException x))"
  using assms
proof (induction deps arbitrary: s)
  case Nil
  then show ?case by auto
next
  case (Cons dep rest)
  let ?del = "\<lambda>h d. DeleteDeployment (meta_name (metas h ! dep_metadata d)) ns"
  let ?s1 = "record_call (?del (heap s) dep) s"
  show ?case
  proof (cases "api_delete_namespaced_deployment ext (calls s)
      (meta_name (metas (heap s) ! dep_metadata dep)) ns")
    case (Inl x)
    with Cons.prems have "r = Inl (ApiException x)" "s' = ?s1" by (simp_all add: Let_def)
    then have "heap s' = heap s" "calls s' = calls s @ map (?del (heap s)) (take 1 (dep # rest))"
      by (simp_all add: record_call_def)
    with \<open>r = Inl (ApiException x)\<close> show ?thesis by blast
  next
    case (Inr deleted)
    with Cons.prems have loop: "rollout_cleanup_loop ext ns rest ?s1 = (r, s')"
      by (simp add: Let_def)
    have h1: "heap ?s1 = heap s" "calls ?s1 = calls s @ [?del (heap s) dep]"
      by (simp_all add: record_call_def)
    from Cons.IH [OF loop] h1 obtain k
      where h: "heap s' = heap s"
        and c: "calls s' = calls s @ ?del (heap s) dep # map (?del (heap s)) (take k rest)"
        and ok: "\<forall>u. r = Inr u \<longrightarrow>
            calls s' = calls s @ ?del (heap s) dep # map (?del (heap s)) rest"
        and er: "\<forall>e. r = Inl e \<longrightarrow> (\<exists>x. e = ApiException x)"
      by auto
    from c have "calls s' = calls s @ map (?del (heap s)) (take (Suc k) (dep # rest))" by simp
    then have "\<exists>k. calls s' = calls s @ map (?del (heap s)) (take k (dep # rest))" by (rule exI)
    with h ok er show ?thesis by simp
  qed
qed


subsection \<open>The uniqueness validator\<close>

lemma check_loop_unique:
  assumes "\<forall>d\<in>set deps. m (getDeploymentBaseName (meta_name (metas h ! dep_metadata d))) = None"
    and "distinct (map (\<lambda>d. getDeploymentBaseName (meta_name (metas h ! dep_metadata d))) deps)"
  shows "check_loop h m deps = Inr ()"
  using assms
proof (induction deps arbitrary: m)
  case Nil
  show ?case by simp
next
  case (Cons d rest)
  let ?b = "\<lambda>d. getDeploymentBaseName (meta_name (metas h ! dep_metadata d))"
  from Cons.prems have none: "m (?b d) = None" and notin: "?b d \<notin> ?b ` set rest"
    and dr: "distinct (map ?b rest)" and nr: "\<forall>x\<in>set rest. m (?b x) = None"
    by simp_all
  have fresh: "\<forall>x\<in>set rest. ?b x \<noteq> ?b d"
  proof (intro ballI notI)
    fix x assume "x \<in> set rest" and "?b x = ?b d"
    then have "?b d \<in> ?b ` set rest" by (metis imageI)
    with notin show False by simp
  qed
  let ?m' = "m(?b d \<mapsto> meta_name (metas h ! dep_metadata d))"
  have "\<forall>x\<in>set rest. ?m' (?b x) = None"
    using nr fresh by simp
  then have "check_loop h ?m' rest = Inr ()"
    using dr by (rule Cons.IH [of ?m'])
  with none show ?case by (simp add: Let_def)
qed

lemma check_loop_conflict:
  assumes "\<not> distinct (map (\<lambda>d. getDeploymentBaseName (meta_name (metas h ! dep_metadata d))) deps)
           \<or> (\<exists>d\<in>set deps. m (getDeploymentBaseName (meta_name (metas h ! dep_metadata d))) \<noteq> None)"
  shows "\<exists>pre d post.
           deps = pre @ d # post \<and>
           distinct (map (\<lambda>d. getDeploymentBaseName (meta_name (metas h ! dep_metadata d))) pre) \<and>
           (\<forall>p\<in>set pre. m (getDeploymentBaseName (meta_name (metas h ! dep_metadata p))) = None) \<and>
           ((\<exists>x. m (getDeploymentBaseName (meta_name (metas h ! dep_metadata d))) = Some x \<and>
                 check_loop h m deps =
                   Inl (K8sBasenameNotUniqueError (meta_name (metas h ! dep_metadata d))
                          (getDeploymentBaseName (meta_name (metas h ! dep_metadata d))) x)) \<or>
            (\<exists>e\<in>set pre.
                 getDeploymentBaseName (meta_name (metas h ! dep_metadata e)) =
                 getDeploymentBaseName (meta_name (metas h ! dep_metadata d)) \<and>
                 check_loop h m deps =
                   Inl (K8sBasenameNotUniqueError (meta_name (metas h ! dep_metadata d))
                          (getDeploymentBaseName (meta_name (metas h ! dep_metadata d)))
                          (meta_name (metas h ! dep_metadata e)))))"
  using assms
proof (induction deps arbitrary: m)
  case Nil
  then show ?case by simp
next
  case (Cons d rest)
  let ?n = "\<lambda>d. meta_name (metas h ! dep_metadata d)"
  let ?b = "\<lambda>d. getDeploymentBaseName (?n d)"
  show ?case
  proof (cases "m (?b d)")
    case (Some x)
    then have "d # rest = [] @ d # rest \<and> distinct (map ?b []) \<and>
        (\<forall>p\<in>set []. m (?b p) = None) \<and>
        ((\<exists>x. m (?b d) = Some x \<and>
            check_loop h m (d # rest) = Inl (K8sBasenameNotUniqueError (?n d) (?b d) x)) \<or>
         (\<exists>e\<in>set []. ?b e = ?b d \<and>
            check_loop h m (d # rest) = Inl (K8sBasenameNotUniqueError (?n d) (?b d) (?n e))))"
      by (simp add: Let_def)
    then show ?thesis by blast
  next
    case None
    let ?m' = "m(?b d \<mapsto> ?n d)"
    have step: "check_loop h m (d # rest) = check_loop h ?m' rest"
      using None by (simp add: Let_def)
    from Cons.prems None
    have "\<not> distinct (map ?b rest) \<or> (\<exists>x\<in>set rest. ?m' (?b x) \<noteq> None)"
      by auto
    from Cons.IH [of ?m', OF this] obtain pre d' post
      where rest: "rest = pre @ d' # post" and dp: "distinct (map ?b pre)"
        and np: "\<forall>p\<in>set pre. ?m' (?b p) = None"
        and res: "(\<exists>x. ?m' (?b d') = Some x \<and>
                 check_loop h ?m' rest = Inl (K8sBasenameNotUniqueError (?n d') (?b d') x)) \<or>
            (\<exists>e\<in>set pre. ?b e = ?b d' \<and>
                 check_loop h ?m' rest = Inl (K8sBasenameNotUniqueError (?n d') (?b d') (?n e)))"
      by blast
    from np have nb: "\<forall>p\<in>set pre. ?b p \<noteq> ?b d" and nm: "\<forall>p\<in>set pre. m (?b p) = None"
      by (auto split: if_splits)
    have a: "d # rest = (d # pre) @ d' # post" using rest by simp
    have b: "distinct (map ?b (d # pre))" using dp nb by auto
    have c: "\<forall>p\<in>set (d # pre). m (?b p) = None" using nm None by simp
    have e: "(\<exists>x. m (?b d') = Some x \<and>
            check_loop h m (d # rest) = Inl (K8sBasenameNotUniqueError (?n d') (?b d') x)) \<or>
         (\<exists>e\<in>set (d # pre). ?b e = ?b d' \<and>
            check_loop h m (d # rest) = Inl (K8sBasenameNotUniqueError (?n d') (?b d') (?n e)))"
      using res
    proof
      assume "\<exists>x. ?m' (?b d') = Some x \<and>
                 check_loop h ?m' rest = Inl (K8sBasenameNotUniqueError (?n d') (?b d') x)"
      then obtain x where x: "?m' (?b d') = Some x"
        and r: "check_loop h ?m' rest = Inl (K8sBasenameNotUniqueError (?n d') (?b d') x)"
        by blast
      show ?thesis
      proof (cases "?b d' = ?b d")
        case True
        with x have "x = ?n d" by simp
        with r step True show ?thesis by auto
      next
        case False
        with x have "m (?b d') = Some x" by simp
        with r step show ?thesis by auto
      qed
    next
      assume "\<exists>e\<in>set pre. ?b e = ?b d' \<and>
                 check_loop h ?m' rest = Inl (K8sBasenameNotUniqueError (?n d') (?b d') (?n e))"
      with step show ?thesis by auto
    qed
    from a b c e show ?thesis by blast
  qed
qed


subsection \<open>The runs of the smart rollout, by cases\<close>

lemma check_loop_error:
  "check_loop h m deps = Inl e \<Longrightarrow> \<exists>a b c. e = K8sBasenameNotUniqueError a b c"
  by (induction deps arbitrary: m) (auto simp: Let_def split: option.splits)

lemma get_deployments_cases:
  obtains
    (api_error) x where
      "api_list_namespaced_deployment ext (calls s) ns (LabelSelector sel) = Inl x"
      "get_namespaced_deployments ext sel ns s =
         (Inl (ApiException x), record_call (ListDeployment ns (LabelSelector sel)) s)"
  | (none)
      "api_list_namespaced_deployment ext (calls s) ns (LabelSelector sel) = Inr []"
      "get_namespaced_deployments ext sel ns s =
         (Inl (K8sDeploymentNotFoundError (ByLabel sel) ns),
          record_call (ListDeployment ns (LabelSelector sel)) s)"
  | (found) items deps h where
      "api_list_namespaced_deployment ext (calls s) ns (LabelSelector sel) = Inr items"
      "items \<noteq> []"
      "load_deployments (heap s) items = (deps, h)"
      "get_namespaced_deployments ext sel ns s =
         (Inr deps, \<lparr>heap = h, calls = calls s @ [ListDeployment ns (LabelSelector sel)]\<rparr>)"
proof (cases "api_list_namespaced_deployment ext (calls s) ns (LabelSelector sel)")
  case (Inl x)
  then show ?thesis
    by (intro api_error [of x]) (simp_all add: get_namespaced_deployments_def Let_def)
next
  case (Inr items)
  show ?thesis
  proof (cases items)
    case Nil
    with Inr show ?thesis
      by (intro none) (simp_all add: get_namespaced_deployments_def Let_def record_call_def)
  next
    case (Cons i rest)
    obtain deps h where l: "load_deployments (heap s) items = (deps, h)"
      by (cases "load_deployments (heap s) items")
    from load_deployments_props [OF l] have "map (manifest_of h) deps = items" by simp
    with Cons have "deps \<noteq> []" by auto
    then have "\<not> length deps < 1" by (cases deps) simp_all
    with Inr l Cons show ?thesis
      by (intro found [of items deps h])
        (simp_all add: get_namespaced_deployments_def Let_def record_call_def)
  qed
qed

lemma get_services_cases:
  obtains
    (api_error) x where
      "get_namespaced_services core sel ns s =
         (Inl (ApiException x), record_call (ListService ns (LabelSelector sel)) s)"
  | (none)
      "api_list_namespaced_service core (calls s) ns (LabelSelector sel) = Inr []"
      "get_namespaced_services core sel ns s =
         (Inl (K8sServiceNotFoundError (ByLabel sel) ns),
          record_call (ListService ns (LabelSelector sel)) s)"
  | (found) svcs where
      "api_list_namespaced_service core (calls s) ns (LabelSelector sel) = Inr svcs"
      "svcs \<noteq> []"
      "get_namespaced_services core sel ns s =
         (Inr svcs, record_call (ListService ns (LabelSelector sel)) s)"
proof (cases "api_list_namespaced_service core (calls s) ns (LabelSelector sel)")
  case (Inl x)
  then show ?thesis
    by (intro api_error [of x]) (simp_all add: get_namespaced_services_def Let_def)
next
  case (Inr svcs)
  show ?thesis
  proof (cases svcs)
    case Nil
    with Inr show ?thesis
      by (intro none) (simp_all add: get_namespaced_services_def Let_def)
  next
    case (Cons a rest)
    with Inr show ?thesis
      by (intro found [of svcs]) (simp_all add: get_namespaced_services_def Let_def)
  qed
qed

lemma loaded_names:
  assumes "load_deployments h0 items = (deps, h)"
  shows "map (\<lambda>d. meta_name (metas h ! dep_metadata d)) deps =
         map (\<lambda>m. meta_name (dep_metadata m)) items"
proof -
  from load_deployments_props [OF assms] have "map (manifest_of h) deps = items" by simp
  then have "map (\<lambda>m. meta_name (dep_metadata m)) items =
      map (\<lambda>d. meta_name (dep_metadata (manifest_of h d))) deps" by (auto simp: comp_def)
  then show ?thesis by (simp add: manifest_of_def read_meta_def)
qed


lemma cutover_cases:
  assumes "(case get_namespaced_services core sel ns s2 of
              (Inl e, s3) \<Rightarrow> (Some (Inl e), s3)
            | (Inr services, s3) \<Rightarrow>
                (case rollout_patch_loop core ns ts services s3 of
                   (Inl e, s4) \<Rightarrow> (Some (Inl e), s4)
                 | (Inr patched, s4) \<Rightarrow>
                     if cleanup
                     then (case rollout_cleanup_loop ext ns deps s4 of
                             (Inl e, s5) \<Rightarrow> (Some (Inl e), s5)
                           | (Inr cleaned, s5) \<Rightarrow> (Some (Inr ()), s5))
                     else (Some (Inr ()), s4))) = (r, s')"
  obtains
    (service_list_failed) x where
      "r = Some (Inl (ApiException x))"
      "calls s' = calls s2 @ [ListService ns (LabelSelector sel)]"
  | (no_service)
      "api_list_namespaced_service core (calls s2) ns (LabelSelector sel) = Inr []"
      "r = Some (Inl (K8sServiceNotFoundError (ByLabel sel) ns))"
      "calls s' = calls s2 @ [ListService ns (LabelSelector sel)]"
  | (patch_failed) e new where
      "r = Some (Inl e)"
      "(\<exists>x. e = ApiException x) \<or> (\<exists>n. e = K8sServiceNotFoundError (ByName n) ns)"
      "calls s' = calls s2 @ ListService ns (LabelSelector sel) # new"
      "list_all (\<lambda>c. phase c = 2) new"
  | (cleanup_failed) svcs :: "service list" and currents k x where
      "cleanup" "r = Some (Inl (ApiException x))"
      "length currents = length svcs"
      "calls s' = calls s2 @ ListService ns (LabelSelector sel) #
         concat (map2 (cutover_calls ns ts) (map svc_name svcs) currents) @
         map (\<lambda>d. DeleteDeployment (meta_name (metas (heap s2) ! dep_metadata d)) ns) (take k deps)"
  | (finished) svcs currents where
      "r = Some (Inr ())"
      "api_list_namespaced_service core (calls s2) ns (LabelSelector sel) = Inr svcs"
      "length currents = length svcs"
      "calls s' = calls s2 @ ListService ns (LabelSelector sel) #
         concat (map2 (cutover_calls ns ts) (map svc_name svcs) currents) @
         (if cleanup
          then map (\<lambda>d. DeleteDeployment (meta_name (metas (heap s2) ! dep_metadata d)) ns) deps
          else [])"
proof (cases rule: get_services_cases [of core sel ns s2])
  case (api_error x)
  with assms have "r = Some (Inl (ApiException x))"
    "calls s' = calls s2 @ [ListService ns (LabelSelector sel)]"
    by (auto simp: record_call_def)
  then show ?thesis by (rule service_list_failed)
next
  case none
  with assms have "r = Some (Inl (K8sServiceNotFoundError (ByLabel sel) ns))"
    "calls s' = calls s2 @ [ListService ns (LabelSelector sel)]"
    by (auto simp: record_call_def)
  with none(1) show ?thesis by (intro no_service)
next
  case (found svcs)
  let ?s3 = "record_call (ListService ns (LabelSelector sel)) s2"
  have s3: "heap ?s3 = heap s2" "calls ?s3 = calls s2 @ [ListService ns (LabelSelector sel)]"
    by (simp_all add: record_call_def)
  obtain r4 s4 where pl: "rollout_patch_loop core ns ts svcs ?s3 = (r4, s4)"
    by (cases "rollout_patch_loop core ns ts svcs ?s3")
  note pf = patch_loop [OF pl]
  from pf s3 have h4: "heap s4 = heap s2" by simp
  from pf obtain new where "calls s4 = calls ?s3 @ new" and p4: "list_all (\<lambda>c. phase c = 2) new"
    by blast
  with s3 have n4: "calls s4 = calls s2 @ ListService ns (LabelSelector sel) # new" by simp
  from pf have e4: "\<forall>e. r4 = Inl e \<longrightarrow>
            (\<exists>x. e = ApiException x) \<or> (\<exists>n. e = K8sServiceNotFoundError (ByName n) ns)"
    by blast
  from pf have "\<forall>u. r4 = Inr u \<longrightarrow>
            (\<exists>currents. length currents = length svcs \<and>
               calls s4 = calls ?s3 @
                 concat (map2 (cutover_calls ns ts) (map svc_name svcs) currents))"
    by blast
  with s3 have o4: "\<forall>u. r4 = Inr u \<longrightarrow>
            (\<exists>currents. length currents = length svcs \<and>
               calls s4 = calls s2 @ ListService ns (LabelSelector sel) #
                 concat (map2 (cutover_calls ns ts) (map svc_name svcs) currents))"
    by simp
  show ?thesis
  proof (cases r4)
    case (Inl e)
    with assms found(3) pl have "r = Some (Inl e)" "s' = s4" by simp_all
    with e4 Inl n4 p4 show ?thesis by (intro patch_failed [of e new]) simp_all
  next
    case (Inr patched)
    with o4 obtain currents where len: "length currents = length svcs"
      and c4: "calls s4 = calls s2 @ ListService ns (LabelSelector sel) #
                 concat (map2 (cutover_calls ns ts) (map svc_name svcs) currents)"
      by blast
    show ?thesis
    proof (cases cleanup)
      case False
      with assms found(3) pl Inr have "r = Some (Inr ())" "s' = s4" by simp_all
      with False c4 len found(1) show ?thesis by (intro finished [of svcs currents]) simp_all
    next
      case True
      obtain r5 s5 where cl: "rollout_cleanup_loop ext ns deps s4 = (r5, s5)"
        by (cases "rollout_cleanup_loop ext ns deps s4")
      note cf = cleanup_loop [OF cl]
      from cf h4 obtain k
        where c5: "calls s5 = calls s4 @
            map (\<lambda>d. DeleteDeployment (meta_name (metas (heap s2) ! dep_metadata d)) ns)
              (take k deps)"
        by auto
      from cf h4 have o5: "\<forall>u. r5 = Inr u \<longrightarrow> calls s5 = calls s4 @
            map (\<lambda>d. DeleteDeployment (meta_name (metas (heap s2) ! dep_metadata d)) ns) deps"
        by simp
      from cf have e5: "\<forall>e. r5 = Inl e \<longrightarrow> (\<exists>x. e = ApiException x)"
        by blast
      show ?thesis
      proof (cases r5)
        case (Inl e)
        with e5 obtain x where x: "e = ApiException x" by blast
        from assms found(3) pl Inr True cl Inl x
        have "r = Some (Inl (ApiException x))" "s' = s5" by simp_all
        with True c5 c4 len show ?thesis
          by (intro cleanup_failed [of x currents svcs k]) simp_all
      next
        case r5: (Inr cleaned)
        from assms found(3) pl Inr True cl r5 have "r = Some (Inr ())" "s' = s5" by simp_all
        with True o5 r5 c4 len found(1) show ?thesis
          by (intro finished [of svcs currents]) simp_all
      qed
    qed
  qed
qed


lemma extends_names:
  assumes "extends h h'" and "list_all (valid h) deps"
  shows "map (\<lambda>d. meta_name (metas h' ! dep_metadata d)) deps =
         map (\<lambda>d. meta_name (metas h ! dep_metadata d)) deps"
  using assms(2) extends_valid(3) [OF assms(1)] by (simp add: list_all_iff)

lemma check_deployments_unique:
  assumes "check_deployments h deps = Inr u"
  shows "distinct (map (\<lambda>d. getDeploymentBaseName (meta_name (metas h ! dep_metadata d))) deps)"
proof (rule ccontr)
  assume "\<not> ?thesis"
  then have "\<not> distinct (map (\<lambda>d. getDeploymentBaseName (meta_name (metas h ! dep_metadata d))) deps)
      \<or> (\<exists>d\<in>set deps. Map.empty (getDeploymentBaseName (meta_name (metas h ! dep_metadata d))) \<noteq> None)"
    by simp
  from check_loop_conflict [OF this] assms show False
    by (auto simp: check_deployments_def)
qed

lemma rollout_cases:
  assumes "trigger_smart_rollout md core ext sel ns cleanup s = (r, s')"
  obtains
    (list_failed) x where
      "api_list_namespaced_deployment ext (calls s) ns (LabelSelector sel) = Inl x"
      "r = Some (Inl (ApiException x))"
      "calls s' = calls s @ [ListDeployment ns (LabelSelector sel)]"
  | (not_found)
      "api_list_namespaced_deployment ext (calls s) ns (LabelSelector sel) = Inr []"
      "r = Some (Inl (K8sDeploymentNotFoundError (ByLabel sel) ns))"
      "s' = record_call (ListDeployment ns (LabelSelector sel)) s"
  | (conflict) items a b c where
      "api_list_namespaced_deployment ext (calls s) ns (LabelSelector sel) = Inr items"
      "items \<noteq> []"
      "r = Some (Inl (K8sBasenameNotUniqueError a b c))"
      "calls s' = calls s @ [ListDeployment ns (LabelSelector sel)]"
  | (duplication_stopped) items new where
      "api_list_namespaced_deployment ext (calls s) ns (LabelSelector sel) = Inr items"
      "items \<noteq> []"
      "r = None \<or> (\<exists>x. r = Some (Inl (ApiException x)) \<or> r = Some (Inl (StreamException x)))"
      "calls s' = calls s @ ListDeployment ns (LabelSelector sel) # new"
      "list_all (\<lambda>c. phase c = 1) new"
  | (duplicated) items ws deps s2 where
      "api_list_namespaced_deployment ext (calls s) ns (LabelSelector sel) = Inr items"
      "items \<noteq> []"
      "distinct (map (\<lambda>m. getDeploymentBaseName (meta_name (dep_metadata m))) items)"
      "list_all2 (\<lambda>m w. w = None \<or>
           observed_ready (meta_name (dep_metadata (spec_duplicate m (getSimpleTimestamp md None)))) w)
         items ws"
      "calls s2 = calls s @ ListDeployment ns (LabelSelector sel) #
         concat (map2 (duplicate_calls ns (getSimpleTimestamp md None)) items ws)"
      "map (\<lambda>d. meta_name (metas (heap s2) ! dep_metadata d)) deps =
         map (\<lambda>m. meta_name (dep_metadata m)) items"
      "(case get_namespaced_services core sel ns s2 of
              (Inl e, s3) \<Rightarrow> (Some (Inl e), s3)
            | (Inr services, s3) \<Rightarrow>
                (case rollout_patch_loop core ns (getSimpleTimestamp md None) services s3 of
                   (Inl e, s4) \<Rightarrow> (Some (Inl e), s4)
                 | (Inr patched, s4) \<Rightarrow>
                     if cleanup
                     then (case rollout_cleanup_loop ext ns deps s4 of
                             (Inl e, s5) \<Rightarrow> (Some (Inl e), s5)
                           | (Inr cleaned, s5) \<Rightarrow> (Some (Inr ()), s5))
                     else (Some (Inr ()), s4))) = (r, s')"
proof (cases rule: get_deployments_cases [of ext s ns sel])
  case (api_error x)
  with assms have "r = Some (Inl (ApiException x))"
    "calls s' = calls s @ [ListDeployment ns (LabelSelector sel)]"
    by (auto simp: trigger_smart_rollout_def record_call_def)
  with api_error(1) show ?thesis by (intro list_failed)
next
  case none
  with assms have "r = Some (Inl (K8sDeploymentNotFoundError (ByLabel sel) ns))"
    "s' = record_call (ListDeployment ns (LabelSelector sel)) s"
    by (auto simp: trigger_smart_rollout_def)
  with none(1) show ?thesis by (intro not_found)
next
  case (found items deps h)
  let ?ts = "getSimpleTimestamp md None"
  let ?s1 = "\<lparr>heap = h, calls = calls s @ [ListDeployment ns (LabelSelector sel)]\<rparr>"
  note lp = load_deployments_props [OF found(3)]
  from lp have v: "list_all (valid h) deps" and t: "list_all tree_shaped deps"
    and mf: "map (manifest_of h) deps = items" by simp_all
  note nm = loaded_names [OF found(3)]
  show ?thesis
  proof (cases "check_deployments h deps")
    case (Inl e)
    from Inl obtain a b c where e: "e = K8sBasenameNotUniqueError a b c"
      using check_loop_error [of h Map.empty deps e] by (auto simp: check_deployments_def)
    from assms found(4) Inl e have "r = Some (Inl (K8sBasenameNotUniqueError a b c))"
      "calls s' = calls s @ [ListDeployment ns (LabelSelector sel)]"
      by (auto simp: trigger_smart_rollout_def)
    with found(1,2) show ?thesis by (intro conflict)
  next
    case (Inr checked)
    from check_deployments_unique [OF Inr]
    have "distinct (map getDeploymentBaseName (map (\<lambda>d. meta_name (metas h ! dep_metadata d)) deps))"
      by (simp add: comp_def)
    then have dist: "distinct (map (\<lambda>m. getDeploymentBaseName (meta_name (dep_metadata m))) items)"
      unfolding nm by (simp add: comp_def)
    obtain r2 s2 where dl: "rollout_duplicate_loop ext ns ?ts deps ?s1 = (r2, s2)"
      by (cases "rollout_duplicate_loop ext ns ?ts deps ?s1")
    have v1: "list_all (valid (heap ?s1)) deps" using v by simp
    have t1: "list_all tree_shaped deps" by (rule t)
    note ph = duplicate_loop_phase [OF dl v1]
    from ph obtain new where n2: "calls s2 = calls ?s1 @ new"
      and p2: "list_all (\<lambda>c. phase c = 1) new" by blast
    from n2 have n2': "calls s2 = calls s @ ListDeployment ns (LabelSelector sel) # new" by simp
    from ph have e2: "\<forall>e. r2 = Some (Inl e) \<longrightarrow> (\<exists>x. e = ApiException x \<or> e = StreamException x)"
      by blast
    show ?thesis
    proof (cases r2)
      case None
      with assms found(4) Inr dl have "r = None" "s' = s2"
        by (simp_all add: trigger_smart_rollout_def)
      with n2' p2 found(1,2) show ?thesis by (intro duplication_stopped [of items new]) simp_all
    next
      case (Some a)
      show ?thesis
      proof (cases a)
        case (Inl e)
        with assms found(4) Inr dl Some have rs: "r = Some (Inl e)" "s' = s2"
          by (simp_all add: trigger_smart_rollout_def)
        from e2 Some Inl have "\<exists>x. e = ApiException x \<or> e = StreamException x" by simp
        with rs n2' p2 found(1,2) show ?thesis
          by (intro duplication_stopped [of items new]) auto
      next
        case r: (Inr u)
        from dl Some r have dl': "rollout_duplicate_loop ext ns ?ts deps ?s1 = (Some (Inr u), s2)"
          by simp
        from duplicate_loop_returns [OF dl' v1 t1] mf obtain ws
          where ex: "extends h (heap s2)"
            and rd: "list_all2 (\<lambda>m w. w = None \<or>
                 observed_ready (meta_name (dep_metadata (spec_duplicate m ?ts))) w) items ws"
            and c2: "calls s2 = calls s @ ListDeployment ns (LabelSelector sel) #
                 concat (map2 (duplicate_calls ns ?ts) items ws)"
          by auto
        from extends_names [OF ex v] nm
        have names: "map (\<lambda>d. meta_name (metas (heap s2) ! dep_metadata d)) deps =
            map (\<lambda>m. meta_name (dep_metadata m)) items" by simp
        from assms found(4) Inr dl Some r
        have tail: "(case get_namespaced_services core sel ns s2 of
              (Inl e, s3) \<Rightarrow> (Some (Inl e), s3)
            | (Inr services, s3) \<Rightarrow>
                (case rollout_patch_loop core ns ?ts services s3 of
                   (Inl e, s4) \<Rightarrow> (Some (Inl e), s4)
                 | (Inr patched, s4) \<Rightarrow>
                     if cleanup
                     then (case rollout_cleanup_loop ext ns deps s4 of
                             (Inl e, s5) \<Rightarrow> (Some (Inl e), s5)
                           | (Inr cleaned, s5) \<Rightarrow> (Some (Inr ()), s5))
                     else (Some (Inr ()), s4))) = (r, s')"
          by (simp add: trigger_smart_rollout_def)
        from found(1,2) dist rd c2 names tail show ?thesis
          by (rule duplicated)
      qed
    qed
  qed
qed


subsection \<open>Reaching the service lookup\<close>

lemma get_services_none:
  assumes "api_list_namespaced_service core (calls s) ns (LabelSelector sel) = Inr []"
  shows "get_namespaced_services core sel ns s =
     (Inl (K8sServiceNotFoundError (ByLabel sel) ns),
      record_call (ListService ns (LabelSelector sel)) s)"
  using assms by (simp add: get_namespaced_services_def Let_def)

lemma check_deployments_loaded:
  assumes "load_deployments h0 items = (deps, h)"
    and "distinct (map (\<lambda>m. getDeploymentBaseName (meta_name (dep_metadata m))) items)"
  shows "check_deployments h deps = Inr ()"
proof -
  have "map (\<lambda>d. getDeploymentBaseName (meta_name (metas h ! dep_metadata d))) deps =
      map getDeploymentBaseName (map (\<lambda>d. meta_name (metas h ! dep_metadata d)) deps)"
    by (simp add: comp_def)
  also have "\<dots> = map getDeploymentBaseName (map (\<lambda>m. meta_name (dep_metadata m)) items)"
    by (simp only: loaded_names [OF assms(1)])
  also have "\<dots> = map (\<lambda>m. getDeploymentBaseName (meta_name (dep_metadata m))) items"
    by (simp add: comp_def)
  finally have "distinct (map (\<lambda>d. getDeploymentBaseName (meta_name (metas h ! dep_metadata d))) deps)"
    using assms(2) by simp
  then have "check_loop h Map.empty deps = Inr ()"
    by (intro check_loop_unique) simp_all
  then show ?thesis by (simp add: check_deployments_def)
qed

lemma rollout_reaches_service_lookup:
  assumes l: "api_list_namespaced_deployment ext (calls s) ns (LabelSelector sel) = Inr items"
    and ne: "items \<noteq> []"
    and di: "distinct (map (\<lambda>m. getDeploymentBaseName (meta_name (dep_metadata m))) items)"
    and ld: "load_deployments (heap s) items = (deps, h)"
    and dl: "rollout_duplicate_loop ext ns (getSimpleTimestamp md None) deps
               \<lparr>heap = h, calls = calls s @ [ListDeployment ns (LabelSelector sel)]\<rparr> =
             (Some (Inr ()), s2)"
  shows "trigger_smart_rollout md core ext sel ns cleanup s =
     (case get_namespaced_services core sel ns s2 of
        (Inl e, s3) \<Rightarrow> (Some (Inl e), s3)
      | (Inr services, s3) \<Rightarrow>
          (case rollout_patch_loop core ns (getSimpleTimestamp md None) services s3 of
             (Inl e, s4) \<Rightarrow> (Some (Inl e), s4)
           | (Inr patched, s4) \<Rightarrow>
               if cleanup
               then (case rollout_cleanup_loop ext ns deps s4 of
                       (Inl e, s5) \<Rightarrow> (Some (Inl e), s5)
                     | (Inr cleaned, s5) \<Rightarrow> (Some (Inr ()), s5))
               else (Some (Inr ()), s4)))"
    and "\<exists>ws. length ws = length items \<and>
           calls s2 = calls s @ ListDeployment ns (LabelSelector sel) #
             concat (map2 (duplicate_calls ns (getSimpleTimestamp md None)) items ws)"
proof -
  let ?ts = "getSimpleTimestamp md None"
  let ?s1 = "\<lparr>heap = h, calls = calls s @ [ListDeployment ns (LabelSelector sel)]\<rparr>"
  note lp = load_deployments_props [OF ld]
  from lp have v: "list_all (valid (heap ?s1)) deps" and t: "list_all tree_shaped deps"
    and mf: "map (manifest_of (heap ?s1)) deps = items" by simp_all
  from mf ne have "deps \<noteq> []" by auto
  then have len: "\<not> length deps < 1" by (cases deps) simp_all
  from l ld len have g: "get_namespaced_deployments ext sel ns s = (Inr deps, ?s1)"
    by (simp add: get_namespaced_deployments_def Let_def record_call_def
        del: load_deployments.simps)
  note c = check_deployments_loaded [OF ld di]
  show "trigger_smart_rollout md core ext sel ns cleanup s =
     (case get_namespaced_services core sel ns s2 of
        (Inl e, s3) \<Rightarrow> (Some (Inl e), s3)
      | (Inr services, s3) \<Rightarrow>
          (case rollout_patch_loop core ns ?ts services s3 of
             (Inl e, s4) \<Rightarrow> (Some (Inl e), s4)
           | (Inr patched, s4) \<Rightarrow>
               if cleanup
               then (case rollout_cleanup_loop ext ns deps s4 of
                       (Inl e, s5) \<Rightarrow> (Some (Inl e), s5)
                     | (Inr cleaned, s5) \<Rightarrow> (Some (Inr ()), s5))
               else (Some (Inr ()), s4)))"
    unfolding trigger_smart_rollout_def Let_def g
    by (simp add: c dl
        del: rollout_duplicate_loop.simps rollout_patch_loop.simps rollout_cleanup_loop.simps)
  from duplicate_loop_returns [OF dl v t] obtain ws
    where rd: "list_all2 (\<lambda>m w. w = None \<or>
                 observed_ready (meta_name (dep_metadata (spec_duplicate m ?ts))) w)
               (map (manifest_of (heap ?s1)) deps) ws"
      and c2: "calls s2 = calls ?s1 @
                 concat (map2 (duplicate_calls ns ?ts) (map (manifest_of (heap ?s1)) deps) ws)"
    by blast
  from rd have "length ws = length items" unfolding mf by (simp add: list_all2_lengthD)
  moreover from c2 have "calls s2 = calls s @ ListDeployment ns (LabelSelector sel) #
             concat (map2 (duplicate_calls ns ?ts) items ws)"
    unfolding mf by simp
  ultimately show "\<exists>ws. length ws = length items \<and>
           calls s2 = calls s @ ListDeployment ns (LabelSelector sel) #
             concat (map2 (duplicate_calls ns ?ts) items ws)" by blast
qed


subsection \<open>The phases of a trace\<close>

lemma is_delete_phase: "is_delete c \<longleftrightarrow> phase c = 3"
  by (cases c) simp_all

lemma is_patch_phase: "is_patch c \<Longrightarrow> phase c = 2"
  by (cases c) simp_all

lemma phase_duplicate_calls:
  "list_all (\<lambda>c. phase c = 1) (concat (map2 (duplicate_calls ns ts) items ws))"
  by (auto simp: list_all_iff duplicate_calls_def)

lemma phase_cutover_calls:
  "list_all (\<lambda>c. phase c = 2) (concat (map2 (cutover_calls ns ts) names currents))"
  by (auto simp: list_all_iff cutover_calls_def)

lemma filter_delete_none: "list_all (\<lambda>c. phase c = k) cs \<Longrightarrow> k \<noteq> 3 \<Longrightarrow> filter is_delete cs = []"
  by (induction cs) (auto simp: is_delete_phase)

lemma filter_delete_all: "filter is_delete (map (delete_call ns) items) = map (delete_call ns) items"
  by (induction items) (simp_all add: delete_call_def)

lemma no_patch_in_phase:
  "list_all (\<lambda>c. phase c = k) cs \<Longrightarrow> k \<noteq> 2 \<Longrightarrow> list_all (\<lambda>c. \<not> is_patch c) cs"
  by (induction cs) (auto dest: is_patch_phase)

text \<open>
  Whatever the clients answer, a run that has sent a patch call has before it listed
  the deployments, gone through the duplication loop for each of them, every wait
  having returned, and listed the services. A wait that has returned has seen the
  duplicate ready or has returned \<open>None\<close>.
\<close>

lemma cutover_follows_waits:
  assumes run: "trigger_smart_rollout md core ext sel ns cleanup s = (r, s')"
    and p: "\<not> list_all (\<lambda>c. \<not> is_patch c) (drop (length (calls s)) (calls s'))"
  shows "\<exists>items ws rest.
      api_list_namespaced_deployment ext (calls s) ns (LabelSelector sel) = Inr items \<and>
      list_all2 (\<lambda>m w. w = None \<or>
           observed_ready (meta_name (dep_metadata (spec_duplicate m (getSimpleTimestamp md None)))) w)
         items ws \<and>
      calls s' = calls s @ ListDeployment ns (LabelSelector sel) #
         concat (map2 (duplicate_calls ns (getSimpleTimestamp md None)) items ws) @
         ListService ns (LabelSelector sel) # rest"
  using run
proof (cases rule: rollout_cases)
  case (list_failed x)
  with p show ?thesis by simp
next
  case not_found
  with p show ?thesis by (simp add: record_call_def)
next
  case (conflict items a b c)
  with p show ?thesis by simp
next
  case (duplication_stopped items new)
  from no_patch_in_phase [OF duplication_stopped(5)] have "list_all (\<lambda>c. \<not> is_patch c) new"
    by simp
  with p duplication_stopped(4) show ?thesis by simp
next
  case (duplicated items ws deps s2)
  let ?ts = "getSimpleTimestamp md None"
  have np: "list_all (\<lambda>c. \<not> is_patch c) (concat (map2 (duplicate_calls ns ?ts) items ws))"
    using no_patch_in_phase [OF phase_duplicate_calls [of ns ?ts items ws]] by simp
  from duplicated(7) show ?thesis
  proof (cases rule: cutover_cases)
    case (service_list_failed x)
    with p np duplicated(5) show ?thesis by simp
  next
    case no_service
    with p np duplicated(5) show ?thesis by simp
  next
    case (patch_failed e new)
    from patch_failed(3) duplicated(5)
    have "calls s' = calls s @ ListDeployment ns (LabelSelector sel) #
         concat (map2 (duplicate_calls ns ?ts) items ws) @
         ListService ns (LabelSelector sel) # new" by simp
    with duplicated(1,4) show ?thesis by blast
  next
    case (cleanup_failed svcs currents k x)
    from cleanup_failed(4) duplicated(5)
    have "calls s' = calls s @ ListDeployment ns (LabelSelector sel) #
         concat (map2 (duplicate_calls ns ?ts) items ws) @
         ListService ns (LabelSelector sel) #
         (concat (map2 (cutover_calls ns ?ts) (map svc_name svcs) currents) @
          map (\<lambda>d. DeleteDeployment (meta_name (metas (heap s2) ! dep_metadata d)) ns)
            (take k deps))" by simp
    with duplicated(1,4) show ?thesis by blast
  next
    case (finished svcs currents)
    from finished(4) duplicated(5)
    have "calls s' = calls s @ ListDeployment ns (LabelSelector sel) #
         concat (map2 (duplicate_calls ns ?ts) items ws) @
         ListService ns (LabelSelector sel) #
         (concat (map2 (cutover_calls ns ?ts) (map svc_name svcs) currents) @
          (if cleanup
           then map (\<lambda>d. DeleteDeployment (meta_name (metas (heap s2) ! dep_metadata d)) ns) deps
           else []))" by simp
    with duplicated(1,4) show ?thesis by blast
  qed
qed


section \<open>The example runs\<close>

text \<open>
  Runs of the program on the example clusters, from the fresh state, by the module
  imported at the import time.
\<close>

lemma controller_timestamp: "getSimpleTimestamp controller None = ''20191011134834''"
  by (simp add: getSimpleTimestamp_def controller_def import_controller_def import_time_def
      strftime_simple_def pad4_def pad2_def digit_char_def)

lemma call_time_timestamp: "strftime_simple call_time = ''20191012090000''"
  by (simp add: call_time_def strftime_simple_def pad4_def pad2_def digit_char_def)

lemma app2_name: "meta_name (dep_metadata app2_manifest) = ''app-20191011134834''"
proof -
  have "getDeploymentBaseName ''app-1'' = ''app''"
    by (simp add: getDeploymentBaseName_def is_digit_def at_dollar_def)
  then show ?thesis
    by (simp add: app2_manifest_def spec_duplicate_def spec_versionedName_def app1_manifest_def
        with_refs_def)
qed

lemma app1_load: "load_deployments empty_store [app1_manifest] = ([app1], app1_store)"
  by (simp add: app1_def app1_store_def split: prod.splits)

lemma app1_duplicate:
  obtains app2 store2 where
    "duplicate_deployment_config app1_store app1 ''20191011134834'' = (app2, store2)"
    "manifest_of store2 app2 = app2_manifest"
    "meta_name (metas store2 ! dep_metadata app2) = ''app-20191011134834''"
    "meta_name (metas store2 ! dep_metadata app1) = ''app-1''"
proof -
  obtain app2 store2
    where d: "duplicate_deployment_config app1_store app1 ''20191011134834'' = (app2, store2)"
    by (cases "duplicate_deployment_config app1_store app1 ''20191011134834''")
  have t: "tree_shaped app1" using app1_tree by (simp add: tree_shaped_def)
  note st = duplicate_step [OF app1_valid t d]
  from st(2) have m: "manifest_of store2 app2 = app2_manifest"
    by (simp add: app1_read app2_manifest_def)
  from st(3) have n: "meta_name (metas store2 ! dep_metadata app2) = ''app-20191011134834''"
    by (simp add: app1_read app2_name [unfolded app2_manifest_def])
  from extends_valid(3) [OF st(1) app1_valid]
  have "meta_name (metas store2 ! dep_metadata app1) = ''app-1''"
    by (simp add: app1_loaded)
  with d m n show ?thesis by (rule that)
qed

lemma app2_replicas: "spec_replicas (dep_spec app2_manifest) = 2"
  by (simp add: app2_manifest_def spec_duplicate_def with_refs_def app1_manifest_def)

lemma rolled_out_feed:
  "watch_events
     (feed_of [Event \<lparr>event_type = ''ADDED'', event_object = with_status app2_manifest None\<rparr>,
               Event \<lparr>event_type = ''MODIFIED'',
                      event_object = with_status app2_manifest (Some 2)\<rparr>])
     0 ''app-20191011134834'' =
   Some (Inr (Some (with_status app2_manifest (Some 2))))"
proof -
  let ?feed = "feed_of [Event \<lparr>event_type = ''ADDED'', event_object = with_status app2_manifest None\<rparr>,
               Event \<lparr>event_type = ''MODIFIED'',
                      event_object = with_status app2_manifest (Some 2)\<rparr>]"
  have p0: "passed ''app-20191011134834'' (?feed 0)"
    by (simp add: feed_of_def passed_def with_status_def replicas_ready_def)
  have p1: "\<not> passed ''app-20191011134834'' (?feed 1)"
    by (simp add: feed_of_def passed_def with_status_def replicas_ready_def app2_name
        app2_replicas)
  have "watch_events ?feed 0 ''app-20191011134834'' = Some (outcome_at (?feed (0 + 1)))"
    by (rule watch_events_returns) (use p0 p1 in simp_all)
  then show ?thesis by (simp add: feed_of_def outcome_at_def)
qed

lemma announced_feed:
  "watch_events
     (feed_of [Event \<lparr>event_type = ''ADDED'', event_object = with_status app2_manifest None\<rparr>])
     0 ''app-20191011134834'' = Some (Inr None)"
proof -
  let ?feed = "feed_of [Event \<lparr>event_type = ''ADDED'', event_object = with_status app2_manifest None\<rparr>]"
  have p0: "passed ''app-20191011134834'' (?feed 0)"
    by (simp add: feed_of_def passed_def with_status_def replicas_ready_def)
  have p1: "\<not> passed ''app-20191011134834'' (?feed 1)"
    by (simp add: feed_of_def passed_def)
  have "watch_events ?feed 0 ''app-20191011134834'' = Some (outcome_at (?feed (0 + 1)))"
    by (rule watch_events_returns) (use p0 p1 in simp_all)
  then show ?thesis by (simp add: feed_of_def outcome_at_def)
qed

lemma healthy_duplicate_loop:
  "\<exists>h. rollout_duplicate_loop healthy_cluster ''default'' ''20191011134834'' [app1]
     \<lparr>heap = app1_store, calls = [ListDeployment ''default'' (LabelSelector ''app=myapp'')]\<rparr> =
   (Some (Inr ()),
    \<lparr>heap = h,
     calls = [ListDeployment ''default'' (LabelSelector ''app=myapp''),
              CreateDeployment ''default'' app2_manifest,
              WatchDeployment ''default'',
              WatchReturned ''app-20191011134834'' (Some (with_status app2_manifest (Some 2)))]\<rparr>) \<and>
   meta_name (metas h ! dep_metadata app1) = ''app-1''"
proof -
  from app1_duplicate obtain app2 store2 where
    d: "duplicate_deployment_config app1_store app1 ''20191011134834'' = (app2, store2)"
    and m: "manifest_of store2 app2 = app2_manifest"
    and n: "meta_name (metas store2 ! dep_metadata app2) = ''app-20191011134834''"
    and o: "meta_name (metas store2 ! dep_metadata app1) = ''app-1''" by blast
  have "rollout_duplicate_loop healthy_cluster ''default'' ''20191011134834'' [app1]
     \<lparr>heap = app1_store, calls = [ListDeployment ''default'' (LabelSelector ''app=myapp'')]\<rparr> =
   (Some (Inr ()),
    \<lparr>heap = store2,
     calls = [ListDeployment ''default'' (LabelSelector ''app=myapp''),
              CreateDeployment ''default'' app2_manifest,
              WatchDeployment ''default'',
              WatchReturned ''app-20191011134834'' (Some (with_status app2_manifest (Some 2)))]\<rparr>)"
    by (simp add: d m n create_namespaced_deployment_def watch_namespaced_deployment_def
        healthy_cluster_def record_call_def Let_def rolled_out_feed app2_replicas)
  with o show ?thesis by blast
qed

lemma closing_duplicate_loop:
  "\<exists>h. rollout_duplicate_loop closing_cluster ''default'' ''20191011134834'' [app1]
     \<lparr>heap = app1_store, calls = [ListDeployment ''default'' (LabelSelector ''app=myapp'')]\<rparr> =
   (Some (Inr ()),
    \<lparr>heap = h,
     calls = [ListDeployment ''default'' (LabelSelector ''app=myapp''),
              CreateDeployment ''default'' app2_manifest,
              WatchDeployment ''default'',
              WatchReturned ''app-20191011134834'' None]\<rparr>) \<and>
   meta_name (metas h ! dep_metadata app1) = ''app-1''"
proof -
  from app1_duplicate obtain app2 store2 where
    d: "duplicate_deployment_config app1_store app1 ''20191011134834'' = (app2, store2)"
    and m: "manifest_of store2 app2 = app2_manifest"
    and n: "meta_name (metas store2 ! dep_metadata app2) = ''app-20191011134834''"
    and o: "meta_name (metas store2 ! dep_metadata app1) = ''app-1''" by blast
  have "rollout_duplicate_loop closing_cluster ''default'' ''20191011134834'' [app1]
     \<lparr>heap = app1_store, calls = [ListDeployment ''default'' (LabelSelector ''app=myapp'')]\<rparr> =
   (Some (Inr ()),
    \<lparr>heap = store2,
     calls = [ListDeployment ''default'' (LabelSelector ''app=myapp''),
              CreateDeployment ''default'' app2_manifest,
              WatchDeployment ''default'',
              WatchReturned ''app-20191011134834'' None]\<rparr>)"
    by (simp add: d m n create_namespaced_deployment_def watch_namespaced_deployment_def
        closing_cluster_def healthy_cluster_def record_call_def Let_def announced_feed)
  with o show ?thesis by blast
qed

lemma healthy_discovery:
  assumes "api_list_namespaced_deployment ext [] ''default'' (LabelSelector ''app=myapp'') =
      Inr [app1_manifest]"
  shows "get_namespaced_deployments ext ''app=myapp'' ''default'' fresh =
     (Inr [app1],
      \<lparr>heap = app1_store, calls = [ListDeployment ''default'' (LabelSelector ''app=myapp'')]\<rparr>)"
  using assms
  by (simp add: get_namespaced_deployments_def fresh_def record_call_def app1_load Let_def
      del: load_deployments.simps)

lemma app1_checked: "check_deployments app1_store [app1] = Inr ()"
  by (simp add: check_deployments_def Let_def)

lemma one_service_discovery:
  "get_namespaced_services one_service ''app=myapp'' ''default'' \<lparr>heap = h, calls = cs\<rparr> =
     (Inr [svc1],
      \<lparr>heap = h, calls = cs @ [ListService ''default'' (LabelSelector ''app=myapp'')]\<rparr>)"
  by (simp add: get_namespaced_services_def one_service_def record_call_def Let_def)

lemma no_service_discovery:
  "get_namespaced_services no_service ''app=myapp'' ''default'' \<lparr>heap = h, calls = cs\<rparr> =
     (Inl (K8sServiceNotFoundError (ByLabel ''app=myapp'') ''default''),
      \<lparr>heap = h, calls = cs @ [ListService ''default'' (LabelSelector ''app=myapp'')]\<rparr>)"
  by (simp add: get_namespaced_services_def no_service_def record_call_def Let_def)

lemma one_service_cutover:
  "rollout_patch_loop one_service ''default'' ts [svc1] \<lparr>heap = h, calls = cs\<rparr> =
     (Inr (), \<lparr>heap = h, calls = cs @ cutover_calls ''default'' ts ''app'' svc1\<rparr>)"
proof -
  have n: "svc_name svc1 = ''app''" by (simp add: svc1_def)
  show ?thesis
    by (simp add: n patch_namespaced_service_def get_namespaced_service_def one_service_def
        record_call_def cutover_calls_def Let_def)
qed

lemma app1_cleanup:
  assumes "api_delete_namespaced_deployment ext = (\<lambda>history name namespace. Inr ())"
    and "meta_name (metas h ! dep_metadata app1) = ''app-1''"
  shows "rollout_cleanup_loop ext ''default'' [app1] \<lparr>heap = h, calls = cs\<rparr> =
     (Inr (), \<lparr>heap = h, calls = cs @ [DeleteDeployment ''app-1'' ''default'']\<rparr>)"
  using assms by (simp add: record_call_def Let_def)

lemma run_no_service:
  "\<exists>h. trigger_smart_rollout controller no_service healthy_cluster ''app=myapp'' ''default''
       cleanup fresh =
     (Some (Inl (K8sServiceNotFoundError (ByLabel ''app=myapp'') ''default'')),
      \<lparr>heap = h,
       calls = [ListDeployment ''default'' (LabelSelector ''app=myapp''),
                CreateDeployment ''default'' app2_manifest,
                WatchDeployment ''default'',
                WatchReturned ''app-20191011134834'' (Some (with_status app2_manifest (Some 2))),
                ListService ''default'' (LabelSelector ''app=myapp'')]\<rparr>)"
proof -
  have d: "get_namespaced_deployments healthy_cluster ''app=myapp'' ''default'' fresh =
     (Inr [app1],
      \<lparr>heap = app1_store, calls = [ListDeployment ''default'' (LabelSelector ''app=myapp'')]\<rparr>)"
    by (rule healthy_discovery) (simp add: healthy_cluster_def)
  from healthy_duplicate_loop obtain h where
    l: "rollout_duplicate_loop healthy_cluster ''default'' ''20191011134834'' [app1]
     \<lparr>heap = app1_store, calls = [ListDeployment ''default'' (LabelSelector ''app=myapp'')]\<rparr> =
   (Some (Inr ()),
    \<lparr>heap = h,
     calls = [ListDeployment ''default'' (LabelSelector ''app=myapp''),
              CreateDeployment ''default'' app2_manifest,
              WatchDeployment ''default'',
              WatchReturned ''app-20191011134834'' (Some (with_status app2_manifest (Some 2)))]\<rparr>)"
    by blast
  have "trigger_smart_rollout controller no_service healthy_cluster ''app=myapp'' ''default''
       cleanup fresh =
     (Some (Inl (K8sServiceNotFoundError (ByLabel ''app=myapp'') ''default'')),
      \<lparr>heap = h,
       calls = [ListDeployment ''default'' (LabelSelector ''app=myapp''),
                CreateDeployment ''default'' app2_manifest,
                WatchDeployment ''default'',
                WatchReturned ''app-20191011134834'' (Some (with_status app2_manifest (Some 2))),
                ListService ''default'' (LabelSelector ''app=myapp'')]\<rparr>)"
    unfolding trigger_smart_rollout_def controller_timestamp Let_def d
    by (simp add: app1_checked l no_service_discovery
        del: rollout_duplicate_loop.simps rollout_patch_loop.simps rollout_cleanup_loop.simps)
  then show ?thesis by (rule exI [of _ h])
qed

lemma one_service_run:
  assumes d: "get_namespaced_deployments ext ''app=myapp'' ''default'' fresh =
     (Inr [app1],
      \<lparr>heap = app1_store, calls = [ListDeployment ''default'' (LabelSelector ''app=myapp'')]\<rparr>)"
    and l: "rollout_duplicate_loop ext ''default'' ''20191011134834'' [app1]
     \<lparr>heap = app1_store, calls = [ListDeployment ''default'' (LabelSelector ''app=myapp'')]\<rparr> =
   (Some (Inr ()),
    \<lparr>heap = h,
     calls = [ListDeployment ''default'' (LabelSelector ''app=myapp''),
              CreateDeployment ''default'' app2_manifest,
              WatchDeployment ''default'',
              WatchReturned ''app-20191011134834'' w]\<rparr>)"
    and n: "meta_name (metas h ! dep_metadata app1) = ''app-1''"
    and x: "api_delete_namespaced_deployment ext = (\<lambda>history name namespace. Inr ())"
  shows "trigger_smart_rollout controller one_service ext ''app=myapp'' ''default'' cleanup fresh =
     (Some (Inr ()),
      \<lparr>heap = h,
       calls = [ListDeployment ''default'' (LabelSelector ''app=myapp''),
                CreateDeployment ''default'' app2_manifest,
                WatchDeployment ''default'',
                WatchReturned ''app-20191011134834'' w,
                ListService ''default'' (LabelSelector ''app=myapp''),
                ListService ''default'' (FieldSelector ''metadata.name=app''),
                PatchService ''app'' ''default''
                  (svc1\<lparr>svc_selector := (svc_selector svc1)(''patch'' \<mapsto> ''20191011134834'')\<rparr>)] @
               (if cleanup then [DeleteDeployment ''app-1'' ''default''] else [])\<rparr>)"
proof (cases cleanup)
  case True
  show ?thesis
    unfolding trigger_smart_rollout_def controller_timestamp Let_def d
    apply (simp add: app1_checked l True
        del: rollout_duplicate_loop.simps rollout_patch_loop.simps rollout_cleanup_loop.simps)
    apply (simp only: one_service_discovery)
    apply (simp del: rollout_duplicate_loop.simps rollout_patch_loop.simps rollout_cleanup_loop.simps)
    apply (simp only: one_service_cutover)
    apply (simp del: rollout_duplicate_loop.simps rollout_patch_loop.simps rollout_cleanup_loop.simps)
    apply (simp only: app1_cleanup [OF x n])
    apply (simp add: cutover_calls_def True)
    done
next
  case False
  show ?thesis
    unfolding trigger_smart_rollout_def controller_timestamp Let_def d
    apply (simp add: app1_checked l False
        del: rollout_duplicate_loop.simps rollout_patch_loop.simps rollout_cleanup_loop.simps)
    apply (simp only: one_service_discovery)
    apply (simp del: rollout_duplicate_loop.simps rollout_patch_loop.simps rollout_cleanup_loop.simps)
    apply (simp only: one_service_cutover)
    apply (simp add: cutover_calls_def False
        del: rollout_duplicate_loop.simps rollout_patch_loop.simps rollout_cleanup_loop.simps)
    done
qed


lemma run_closing:
  "\<exists>h. trigger_smart_rollout controller one_service closing_cluster ''app=myapp'' ''default''
       cleanup fresh =
     (Some (Inr ()),
      \<lparr>heap = h,
       calls = [ListDeployment ''default'' (LabelSelector ''app=myapp''),
                CreateDeployment ''default'' app2_manifest,
                WatchDeployment ''default'',
                WatchReturned ''app-20191011134834'' None,
                ListService ''default'' (LabelSelector ''app=myapp''),
                ListService ''default'' (FieldSelector ''metadata.name=app''),
                PatchService ''app'' ''default''
                  (svc1\<lparr>svc_selector := (svc_selector svc1)(''patch'' \<mapsto> ''20191011134834'')\<rparr>)] @
               (if cleanup then [DeleteDeployment ''app-1'' ''default''] else [])\<rparr>)"
proof -
  have d: "get_namespaced_deployments closing_cluster ''app=myapp'' ''default'' fresh =
     (Inr [app1],
      \<lparr>heap = app1_store, calls = [ListDeployment ''default'' (LabelSelector ''app=myapp'')]\<rparr>)"
    by (rule healthy_discovery) (simp add: closing_cluster_def healthy_cluster_def)
  from closing_duplicate_loop obtain h where
    l: "rollout_duplicate_loop closing_cluster ''default'' ''20191011134834'' [app1]
     \<lparr>heap = app1_store, calls = [ListDeployment ''default'' (LabelSelector ''app=myapp'')]\<rparr> =
   (Some (Inr ()),
    \<lparr>heap = h,
     calls = [ListDeployment ''default'' (LabelSelector ''app=myapp''),
              CreateDeployment ''default'' app2_manifest,
              WatchDeployment ''default'',
              WatchReturned ''app-20191011134834'' None]\<rparr>)"
    and n: "meta_name (metas h ! dep_metadata app1) = ''app-1''"
    by blast
  have x: "api_delete_namespaced_deployment closing_cluster = (\<lambda>history name namespace. Inr ())"
    by (simp add: closing_cluster_def healthy_cluster_def)
  from one_service_run [OF d l n x] show ?thesis by (rule exI [of _ h])
qed

lemma run_healthy:
  "\<exists>h. trigger_smart_rollout controller one_service healthy_cluster ''app=myapp'' ''default''
       cleanup fresh =
     (Some (Inr ()),
      \<lparr>heap = h,
       calls = [ListDeployment ''default'' (LabelSelector ''app=myapp''),
                CreateDeployment ''default'' app2_manifest,
                WatchDeployment ''default'',
                WatchReturned ''app-20191011134834'' (Some (with_status app2_manifest (Some 2))),
                ListService ''default'' (LabelSelector ''app=myapp''),
                ListService ''default'' (FieldSelector ''metadata.name=app''),
                PatchService ''app'' ''default''
                  (svc1\<lparr>svc_selector := (svc_selector svc1)(''patch'' \<mapsto> ''20191011134834'')\<rparr>)] @
               (if cleanup then [DeleteDeployment ''app-1'' ''default''] else [])\<rparr>)"
proof -
  have d: "get_namespaced_deployments healthy_cluster ''app=myapp'' ''default'' fresh =
     (Inr [app1],
      \<lparr>heap = app1_store, calls = [ListDeployment ''default'' (LabelSelector ''app=myapp'')]\<rparr>)"
    by (rule healthy_discovery) (simp add: healthy_cluster_def)
  from healthy_duplicate_loop obtain h where
    l: "rollout_duplicate_loop healthy_cluster ''default'' ''20191011134834'' [app1]
     \<lparr>heap = app1_store, calls = [ListDeployment ''default'' (LabelSelector ''app=myapp'')]\<rparr> =
   (Some (Inr ()),
    \<lparr>heap = h,
     calls = [ListDeployment ''default'' (LabelSelector ''app=myapp''),
              CreateDeployment ''default'' app2_manifest,
              WatchDeployment ''default'',
              WatchReturned ''app-20191011134834'' (Some (with_status app2_manifest (Some 2)))]\<rparr>)"
    and n: "meta_name (metas h ! dep_metadata app1) = ''app-1''"
    by blast
  have x: "api_delete_namespaced_deployment healthy_cluster = (\<lambda>history name namespace. Inr ())"
    by (simp add: healthy_cluster_def)
  from one_service_run [OF d l n x] show ?thesis by (rule exI [of _ h])
qed

section \<open>Claims about the rollout\<close>

subsection \<open>Claim C1\<close>

text \<open>
  C1, as stated: replica-sets and services are both discovered before any mutating
  call, so that when no service matches no create, patch or delete call has been
  issued. The code looks the services up only after the duplication loop: in the
  healthy cluster with no matching service the rollout fails with
  \<open>K8sServiceNotFoundError\<close> after it has created the duplicate of \<open>app-1\<close>.
\<close>

theorem service_lookup_follows_creation:
  "fst (trigger_smart_rollout controller no_service healthy_cluster ''app=myapp'' ''default''
          True fresh) =
     Some (Inl (K8sServiceNotFoundError (ByLabel ''app=myapp'') ''default'')) \<and>
   filter mutating
     (calls (snd (trigger_smart_rollout controller no_service healthy_cluster ''app=myapp''
                    ''default'' True fresh))) =
     [CreateDeployment ''default'' app2_manifest]"
proof -
  from run_no_service [of True] obtain h where
    "trigger_smart_rollout controller no_service healthy_cluster ''app=myapp'' ''default''
       True fresh =
     (Some (Inl (K8sServiceNotFoundError (ByLabel ''app=myapp'') ''default'')),
      \<lparr>heap = h,
       calls = [ListDeployment ''default'' (LabelSelector ''app=myapp''),
                CreateDeployment ''default'' app2_manifest,
                WatchDeployment ''default'',
                WatchReturned ''app-20191011134834'' (Some (with_status app2_manifest (Some 2))),
                ListService ''default'' (LabelSelector ''app=myapp'')]\<rparr>)"
    by blast
  then show ?thesis by simp
qed

text \<open>
  C1, amended: the replica-sets are discovered first, and when none matches the rollout
  fails with \<open>K8sDeploymentNotFoundError\<close> after that one list call and nothing
  else. The services are discovered after the duplication loop. A service lookup that
  finds no service raises \<open>K8sServiceNotFoundError\<close>; so when the deployments found
  (at least one, with distinct base names) have all been duplicated, created and waited
  for, and no service matches the selector then, the rollout fails with
  \<open>K8sServiceNotFoundError\<close>: the list call for the services is its last call, one
  create call for each discovered deployment has been issued before it, and no patch or
  delete call. Conversely, a rollout that fails with \<open>K8sServiceNotFoundError\<close> for
  the selector has this trace.
\<close>

theorem rollout_discovery_order:
  "(api_list_namespaced_deployment ext (calls s) ns (LabelSelector sel) = Inr [] \<longrightarrow>
      trigger_smart_rollout md core ext sel ns cleanup s =
        (Some (Inl (K8sDeploymentNotFoundError (ByLabel sel) ns)),
         record_call (ListDeployment ns (LabelSelector sel)) s)) \<and>
   (api_list_namespaced_service core (calls sd) ns (LabelSelector sel) = Inr [] \<longrightarrow>
      get_namespaced_services core sel ns sd =
        (Inl (K8sServiceNotFoundError (ByLabel sel) ns),
         record_call (ListService ns (LabelSelector sel)) sd)) \<and>
   (api_list_namespaced_deployment ext (calls s) ns (LabelSelector sel) = Inr found \<and>
    found \<noteq> [] \<and>
    distinct (map (\<lambda>m. getDeploymentBaseName (meta_name (dep_metadata m))) found) \<and>
    load_deployments (heap s) found = (deps, h) \<and>
    rollout_duplicate_loop ext ns (getSimpleTimestamp md None) deps
        \<lparr>heap = h, calls = calls s @ [ListDeployment ns (LabelSelector sel)]\<rparr> =
      (Some (Inr ()), sd) \<and>
    api_list_namespaced_service core (calls sd) ns (LabelSelector sel) = Inr [] \<longrightarrow>
      trigger_smart_rollout md core ext sel ns cleanup s =
        (Some (Inl (K8sServiceNotFoundError (ByLabel sel) ns)),
         record_call (ListService ns (LabelSelector sel)) sd) \<and>
      (\<exists>ws. length ws = length found \<and>
         calls (snd (trigger_smart_rollout md core ext sel ns cleanup s)) =
           calls s @ ListDeployment ns (LabelSelector sel) #
             concat (map2 (duplicate_calls ns (getSimpleTimestamp md None)) found ws) @
             [ListService ns (LabelSelector sel)]) \<and>
      filter mutating (drop (length (calls s))
          (calls (snd (trigger_smart_rollout md core ext sel ns cleanup s)))) =
        map (\<lambda>m. CreateDeployment ns (spec_duplicate m (getSimpleTimestamp md None))) found) \<and>
   (fst (trigger_smart_rollout md core ext sel ns cleanup s) =
        Some (Inl (K8sServiceNotFoundError (ByLabel l) n)) \<longrightarrow>
      (\<exists>items ws.
         api_list_namespaced_deployment ext (calls s) ns (LabelSelector sel) = Inr items \<and>
         items \<noteq> [] \<and> length ws = length items \<and>
         calls (snd (trigger_smart_rollout md core ext sel ns cleanup s)) =
           calls s @ ListDeployment ns (LabelSelector sel) #
             concat (map2 (duplicate_calls ns (getSimpleTimestamp md None)) items ws) @
             [ListService ns (LabelSelector sel)]))"
proof (intro conjI impI)
  obtain r s' where run: "trigger_smart_rollout md core ext sel ns cleanup s = (r, s')"
    by (cases "trigger_smart_rollout md core ext sel ns cleanup s")
  {
    assume none: "api_list_namespaced_deployment ext (calls s) ns (LabelSelector sel) = Inr []"
    from run show "trigger_smart_rollout md core ext sel ns cleanup s =
        (Some (Inl (K8sDeploymentNotFoundError (ByLabel sel) ns)),
         record_call (ListDeployment ns (LabelSelector sel)) s)"
    proof (cases rule: rollout_cases)
      case not_found
      with run show ?thesis by simp
    qed (use none in simp_all)
  }
  {
    assume "api_list_namespaced_service core (calls sd) ns (LabelSelector sel) = Inr []"
    then show "get_namespaced_services core sel ns sd =
        (Inl (K8sServiceNotFoundError (ByLabel sel) ns),
         record_call (ListService ns (LabelSelector sel)) sd)"
      by (rule get_services_none)
  }
  {
    assume a: "api_list_namespaced_deployment ext (calls s) ns (LabelSelector sel) = Inr found \<and>
      found \<noteq> [] \<and>
      distinct (map (\<lambda>m. getDeploymentBaseName (meta_name (dep_metadata m))) found) \<and>
      load_deployments (heap s) found = (deps, h) \<and>
      rollout_duplicate_loop ext ns (getSimpleTimestamp md None) deps
          \<lparr>heap = h, calls = calls s @ [ListDeployment ns (LabelSelector sel)]\<rparr> =
        (Some (Inr ()), sd) \<and>
      api_list_namespaced_service core (calls sd) ns (LabelSelector sel) = Inr []"
    let ?ts = "getSimpleTimestamp md None"
    from a have l: "api_list_namespaced_deployment ext (calls s) ns (LabelSelector sel) = Inr found"
      and ne: "found \<noteq> []"
      and di: "distinct (map (\<lambda>m. getDeploymentBaseName (meta_name (dep_metadata m))) found)"
      and ld: "load_deployments (heap s) found = (deps, h)"
      and dl: "rollout_duplicate_loop ext ns ?ts deps
          \<lparr>heap = h, calls = calls s @ [ListDeployment ns (LabelSelector sel)]\<rparr> =
        (Some (Inr ()), sd)"
      and sv: "api_list_namespaced_service core (calls sd) ns (LabelSelector sel) = Inr []"
      by simp_all
    note reach = rollout_reaches_service_lookup [OF l ne di ld dl]
    from reach(1) [of core cleanup] get_services_none [OF sv]
    have res: "trigger_smart_rollout md core ext sel ns cleanup s =
        (Some (Inl (K8sServiceNotFoundError (ByLabel sel) ns)),
         record_call (ListService ns (LabelSelector sel)) sd)"
      by simp
    from reach(2) obtain ws where len: "length ws = length found"
      and c2: "calls sd = calls s @ ListDeployment ns (LabelSelector sel) #
             concat (map2 (duplicate_calls ns ?ts) found ws)" by blast
    have tr: "calls (snd (trigger_smart_rollout md core ext sel ns cleanup s)) =
           calls s @ ListDeployment ns (LabelSelector sel) #
             concat (map2 (duplicate_calls ns ?ts) found ws) @
             [ListService ns (LabelSelector sel)]"
      unfolding res by (simp add: record_call_def c2)
    have fm: "filter mutating (concat (map2 (duplicate_calls ns ?ts) found ws)) =
        map (\<lambda>m. CreateDeployment ns (spec_duplicate m ?ts)) found"
      using len
    proof (induction found arbitrary: ws)
      case Nil
      show ?case by simp
    next
      case (Cons m ms)
      then obtain w ws' where ws: "ws = w # ws'" and "length ws' = length ms"
        by (cases ws) simp_all
      with Cons.IH [of ws'] show ?case by (simp add: duplicate_calls_def)
    qed
    show "trigger_smart_rollout md core ext sel ns cleanup s =
        (Some (Inl (K8sServiceNotFoundError (ByLabel sel) ns)),
         record_call (ListService ns (LabelSelector sel)) sd)"
      by (rule res)
    from len tr show "\<exists>ws. length ws = length found \<and>
         calls (snd (trigger_smart_rollout md core ext sel ns cleanup s)) =
           calls s @ ListDeployment ns (LabelSelector sel) #
             concat (map2 (duplicate_calls ns ?ts) found ws) @
             [ListService ns (LabelSelector sel)]" by blast
    show "filter mutating (drop (length (calls s))
          (calls (snd (trigger_smart_rollout md core ext sel ns cleanup s)))) =
        map (\<lambda>m. CreateDeployment ns (spec_duplicate m ?ts)) found"
      unfolding tr by (simp add: fm)
  }
  {
    assume "fst (trigger_smart_rollout md core ext sel ns cleanup s) =
        Some (Inl (K8sServiceNotFoundError (ByLabel l) n))"
    with run have r: "r = Some (Inl (K8sServiceNotFoundError (ByLabel l) n))" by simp
    from run show "\<exists>items ws.
         api_list_namespaced_deployment ext (calls s) ns (LabelSelector sel) = Inr items \<and>
         items \<noteq> [] \<and> length ws = length items \<and>
         calls (snd (trigger_smart_rollout md core ext sel ns cleanup s)) =
           calls s @ ListDeployment ns (LabelSelector sel) #
             concat (map2 (duplicate_calls ns (getSimpleTimestamp md None)) items ws) @
             [ListService ns (LabelSelector sel)]"
    proof (cases rule: rollout_cases)
      case (duplicated items ws deps sd)
      from duplicated(4) have len: "length ws = length items"
        by (simp add: list_all2_lengthD)
      from duplicated(7) show ?thesis
      proof (cases rule: cutover_cases)
        case no_service
        with duplicated(1,2,5) len run show ?thesis by auto
      qed (use r in auto)
    qed (use r in auto)
  }
qed

theorem rollout_discovery_order_witness:
  "api_list_namespaced_deployment empty_cluster (calls fresh) ''default''
     (LabelSelector ''app=myapp'') = Inr [] \<and>
   trigger_smart_rollout controller one_service empty_cluster ''app=myapp'' ''default'' True fresh =
     (Some (Inl (K8sDeploymentNotFoundError (ByLabel ''app=myapp'') ''default'')),
      record_call (ListDeployment ''default'' (LabelSelector ''app=myapp'')) fresh) \<and>
   api_list_namespaced_deployment healthy_cluster (calls fresh) ''default''
     (LabelSelector ''app=myapp'') = Inr [app1_manifest] \<and>
   [app1_manifest] \<noteq> [] \<and>
   distinct (map (\<lambda>m. getDeploymentBaseName (meta_name (dep_metadata m))) [app1_manifest]) \<and>
   load_deployments (heap fresh) [app1_manifest] = ([app1], app1_store) \<and>
   (\<exists>s2.
      rollout_duplicate_loop healthy_cluster ''default'' (getSimpleTimestamp controller None) [app1]
        \<lparr>heap = app1_store,
         calls = calls fresh @ [ListDeployment ''default'' (LabelSelector ''app=myapp'')]\<rparr> =
        (Some (Inr ()), s2) \<and>
      api_list_namespaced_service no_service (calls s2) ''default''
        (LabelSelector ''app=myapp'') = Inr [] \<and>
      get_namespaced_services no_service ''app=myapp'' ''default'' s2 =
        (Inl (K8sServiceNotFoundError (ByLabel ''app=myapp'') ''default''),
         record_call (ListService ''default'' (LabelSelector ''app=myapp'')) s2) \<and>
      trigger_smart_rollout controller no_service healthy_cluster ''app=myapp'' ''default''
          True fresh =
        (Some (Inl (K8sServiceNotFoundError (ByLabel ''app=myapp'') ''default'')),
         record_call (ListService ''default'' (LabelSelector ''app=myapp'')) s2)) \<and>
   filter mutating (drop (length (calls fresh))
     (calls (snd (trigger_smart_rollout controller no_service healthy_cluster ''app=myapp''
                    ''default'' True fresh)))) =
     [CreateDeployment ''default'' (spec_duplicate app1_manifest ''20191011134834'')] \<and>
   fst (trigger_smart_rollout controller no_service healthy_cluster ''app=myapp'' ''default''
          True fresh) =
     Some (Inl (K8sServiceNotFoundError (ByLabel ''app=myapp'') ''default'')) \<and>
   (\<exists>items ws.
      api_list_namespaced_deployment healthy_cluster (calls fresh) ''default''
        (LabelSelector ''app=myapp'') = Inr items \<and>
      items \<noteq> [] \<and> length ws = length items \<and>
      calls (snd (trigger_smart_rollout controller no_service healthy_cluster ''app=myapp''
                    ''default'' True fresh)) =
        calls fresh @ ListDeployment ''default'' (LabelSelector ''app=myapp'') #
          concat (map2 (duplicate_calls ''default'' (getSimpleTimestamp controller None)) items ws) @
          [ListService ''default'' (LabelSelector ''app=myapp'')])"
proof -
  let ?ts = "getSimpleTimestamp controller None"
  have e: "api_list_namespaced_deployment empty_cluster (calls fresh) ''default''
     (LabelSelector ''app=myapp'') = Inr []"
    by (simp add: empty_cluster_def healthy_cluster_def)
  have l: "api_list_namespaced_deployment healthy_cluster (calls fresh) ''default''
     (LabelSelector ''app=myapp'') = Inr [app1_manifest]"
    by (simp add: healthy_cluster_def)
  have ne: "[app1_manifest] \<noteq> []" by simp
  have di: "distinct (map (\<lambda>m. getDeploymentBaseName (meta_name (dep_metadata m))) [app1_manifest])"
    by simp
  have ld: "load_deployments (heap fresh) [app1_manifest] = ([app1], app1_store)"
    using app1_load by (simp add: fresh_def del: load_deployments.simps)
  have cf: "calls fresh = []" by (simp add: fresh_def)
  from healthy_duplicate_loop obtain s2 where
    dl: "rollout_duplicate_loop healthy_cluster ''default'' ?ts [app1]
        \<lparr>heap = app1_store,
         calls = calls fresh @ [ListDeployment ''default'' (LabelSelector ''app=myapp'')]\<rparr> =
        (Some (Inr ()), s2)"
    unfolding controller_timestamp cf by auto
  have sv: "api_list_namespaced_service no_service (calls s2) ''default''
        (LabelSelector ''app=myapp'') = Inr []"
    by (simp add: no_service_def)
  note t1 = rollout_discovery_order [where ext = empty_cluster and s = fresh
      and ns = "''default''" and sel = "''app=myapp''" and md = controller and core = one_service
      and cleanup = True, THEN conjunct1, rule_format, OF e]
  note t2 = rollout_discovery_order [where core = no_service and sd = s2
      and ns = "''default''" and sel = "''app=myapp''",
      THEN conjunct2, THEN conjunct1, rule_format, OF sv]
  have all: "api_list_namespaced_deployment healthy_cluster (calls fresh) ''default''
        (LabelSelector ''app=myapp'') = Inr [app1_manifest] \<and>
      [app1_manifest] \<noteq> [] \<and>
      distinct (map (\<lambda>m. getDeploymentBaseName (meta_name (dep_metadata m))) [app1_manifest]) \<and>
      load_deployments (heap fresh) [app1_manifest] = ([app1], app1_store) \<and>
      rollout_duplicate_loop healthy_cluster ''default'' ?ts [app1]
        \<lparr>heap = app1_store,
         calls = calls fresh @ [ListDeployment ''default'' (LabelSelector ''app=myapp'')]\<rparr> =
        (Some (Inr ()), s2) \<and>
      api_list_namespaced_service no_service (calls s2) ''default''
        (LabelSelector ''app=myapp'') = Inr []"
    using l ne di ld dl sv by (intro conjI)
  note t3 = rollout_discovery_order [where ext = healthy_cluster and s = fresh
      and ns = "''default''" and sel = "''app=myapp''" and md = controller and core = no_service
      and cleanup = True and found = "[app1_manifest]" and deps = "[app1]" and h = app1_store
      and sd = s2,
      THEN conjunct2, THEN conjunct2, THEN conjunct1, rule_format, OF all]
  from t3 [THEN conjunct1] have r: "trigger_smart_rollout controller no_service healthy_cluster ''app=myapp''
        ''default'' True fresh =
        (Some (Inl (K8sServiceNotFoundError (ByLabel ''app=myapp'') ''default'')),
         record_call (ListService ''default'' (LabelSelector ''app=myapp'')) s2)"
    by simp
  from t3 [THEN conjunct2, THEN conjunct2] have m: "filter mutating (drop (length (calls fresh))
     (calls (snd (trigger_smart_rollout controller no_service healthy_cluster ''app=myapp''
                    ''default'' True fresh)))) =
     [CreateDeployment ''default'' (spec_duplicate app1_manifest ''20191011134834'')]"
    by (simp only: controller_timestamp list.map)
  from r have f: "fst (trigger_smart_rollout controller no_service healthy_cluster ''app=myapp''
        ''default'' True fresh) =
     Some (Inl (K8sServiceNotFoundError (ByLabel ''app=myapp'') ''default''))"
    by simp
  note t4 = rollout_discovery_order [where ext = healthy_cluster and s = fresh
      and ns = "''default''" and sel = "''app=myapp''" and md = controller and core = no_service
      and cleanup = True and l = "''app=myapp''" and n = "''default''",
      THEN conjunct2, THEN conjunct2, THEN conjunct2, rule_format, OF f]
  have ex: "\<exists>s2.
      rollout_duplicate_loop healthy_cluster ''default'' ?ts [app1]
        \<lparr>heap = app1_store,
         calls = calls fresh @ [ListDeployment ''default'' (LabelSelector ''app=myapp'')]\<rparr> =
        (Some (Inr ()), s2) \<and>
      api_list_namespaced_service no_service (calls s2) ''default''
        (LabelSelector ''app=myapp'') = Inr [] \<and>
      get_namespaced_services no_service ''app=myapp'' ''default'' s2 =
        (Inl (K8sServiceNotFoundError (ByLabel ''app=myapp'') ''default''),
         record_call (ListService ''default'' (LabelSelector ''app=myapp'')) s2) \<and>
      trigger_smart_rollout controller no_service healthy_cluster ''app=myapp'' ''default''
          True fresh =
        (Some (Inl (K8sServiceNotFoundError (ByLabel ''app=myapp'') ''default'')),
         record_call (ListService ''default'' (LabelSelector ''app=myapp'')) s2)"
    using dl sv t2 r by (intro exI [of _ s2] conjI)
  from e t1 l ne di ld ex m f t4 show ?thesis by (intro conjI)
qed


subsection \<open>Claim C5\<close>

text \<open>
  C5: when two or more of the discovered deployments share a base name, the validation
  raises \<open>K8sBasenameNotUniqueError\<close> at the first deployment, in input order, whose
  base name has occurred before (the deployments before it have distinct base names),
  naming it, the base name and the earlier deployment; and the rollout that hits this
  error has sent the list call for the deployments and nothing else, so no create,
  patch or delete call.
\<close>

theorem basename_conflict_aborts:
  assumes "api_list_namespaced_deployment ext (calls s) ns (LabelSelector sel) = Inr items"
    and "\<not> distinct (map (\<lambda>m. getDeploymentBaseName (meta_name (dep_metadata m))) items)"
  shows "\<exists>pre d post e.
      items = pre @ d # post \<and>
      distinct (map (\<lambda>m. getDeploymentBaseName (meta_name (dep_metadata m))) pre) \<and>
      e \<in> set pre \<and>
      getDeploymentBaseName (meta_name (dep_metadata e)) =
        getDeploymentBaseName (meta_name (dep_metadata d)) \<and>
      check_deployments (snd (load_deployments (heap s) items))
          (fst (load_deployments (heap s) items)) =
        Inl (K8sBasenameNotUniqueError (meta_name (dep_metadata d))
               (getDeploymentBaseName (meta_name (dep_metadata d))) (meta_name (dep_metadata e))) \<and>
      fst (trigger_smart_rollout md core ext sel ns cleanup s) =
        Some (Inl (K8sBasenameNotUniqueError (meta_name (dep_metadata d))
               (getDeploymentBaseName (meta_name (dep_metadata d))) (meta_name (dep_metadata e)))) \<and>
      calls (snd (trigger_smart_rollout md core ext sel ns cleanup s)) =
        calls s @ [ListDeployment ns (LabelSelector sel)]"
proof -
  let ?n = "\<lambda>h d. meta_name (metas h ! dep_metadata d)"
  let ?b = "\<lambda>h d. getDeploymentBaseName (?n h d)"
  from assms(2) have ne: "items \<noteq> []" by auto
  show ?thesis
  proof (cases rule: get_deployments_cases [of ext s ns sel])
    case (api_error x)
    with assms(1) show ?thesis by simp
  next
    case none
    with assms(1) ne show ?thesis by simp
  next
    case (found items' deps h)
    with assms(1) have [simp]: "items' = items" by simp
    from found(3) have ld: "load_deployments (heap s) items = (deps, h)" by simp
    from load_deployments_props [OF ld] have mf: "map (manifest_of h) deps = items" by simp
    have nm: "\<And>d. meta_name (dep_metadata (manifest_of h d)) = ?n h d"
      by (simp add: manifest_of_def read_meta_def)
    have bases: "\<And>ds. map (\<lambda>m. getDeploymentBaseName (meta_name (dep_metadata m)))
        (map (manifest_of h) ds) = map (?b h) ds"
      by (simp add: nm)
    from assms(2) have "\<not> distinct (map (?b h) deps)"
      unfolding mf [symmetric] bases .
    then have "\<not> distinct (map (?b h) deps) \<or> (\<exists>d\<in>set deps. Map.empty (?b h d) \<noteq> None)"
      by simp
    from check_loop_conflict [OF this] obtain pre d post e
      where dec: "deps = pre @ d # post" and dp: "distinct (map (?b h) pre)"
        and e: "e \<in> set pre" and eb: "?b h e = ?b h d"
        and res: "check_loop h Map.empty deps =
          Inl (K8sBasenameNotUniqueError (?n h d) (?b h d) (?n h e))"
      by auto
    let ?mf = "manifest_of h"
    from dec mf have a: "items = map ?mf pre @ ?mf d # map ?mf post" by auto
    from dp have b: "distinct (map (\<lambda>m. getDeploymentBaseName (meta_name (dep_metadata m)))
        (map ?mf pre))" unfolding bases .
    from e have c: "?mf e \<in> set (map ?mf pre)" by simp
    from eb have f: "getDeploymentBaseName (meta_name (dep_metadata (?mf e))) =
        getDeploymentBaseName (meta_name (dep_metadata (?mf d)))" by (simp add: nm)
    from res have chk: "check_deployments h deps =
        Inl (K8sBasenameNotUniqueError (meta_name (dep_metadata (?mf d)))
               (getDeploymentBaseName (meta_name (dep_metadata (?mf d))))
               (meta_name (dep_metadata (?mf e))))"
      by (simp add: check_deployments_def nm)
    from chk ld have g: "check_deployments (snd (load_deployments (heap s) items))
          (fst (load_deployments (heap s) items)) =
        Inl (K8sBasenameNotUniqueError (meta_name (dep_metadata (?mf d)))
               (getDeploymentBaseName (meta_name (dep_metadata (?mf d))))
               (meta_name (dep_metadata (?mf e))))" by simp
    from found(4) chk
    have run: "trigger_smart_rollout md core ext sel ns cleanup s =
        (Some (Inl (K8sBasenameNotUniqueError (meta_name (dep_metadata (?mf d)))
               (getDeploymentBaseName (meta_name (dep_metadata (?mf d))))
               (meta_name (dep_metadata (?mf e))))),
         \<lparr>heap = h, calls = calls s @ [ListDeployment ns (LabelSelector sel)]\<rparr>)"
      by (simp add: trigger_smart_rollout_def)
    from a b c f g run show ?thesis
      by (intro exI [of _ "map ?mf pre"] exI [of _ "?mf d"] exI [of _ "map ?mf post"]
          exI [of _ "?mf e"]) simp
  qed
qed

lemma svc_base:
  "getDeploymentBaseName ''svc-20190101000000'' = ''svc''"
  "getDeploymentBaseName ''svc-20190102000000'' = ''svc''"
  by (simp_all add: getDeploymentBaseName_def is_digit_def at_dollar_def)

theorem basename_conflict_aborts_witness:
  "api_list_namespaced_deployment conflicting_cluster (calls fresh) ''default''
     (LabelSelector ''app=myapp'') =
     Inr [named ''svc-20190101000000'', named ''svc-20190102000000''] \<and>
   \<not> distinct (map (\<lambda>m. getDeploymentBaseName (meta_name (dep_metadata m)))
     [named ''svc-20190101000000'', named ''svc-20190102000000'']) \<and>
   fst (trigger_smart_rollout controller one_service conflicting_cluster ''app=myapp''
          ''default'' True fresh) =
     Some (Inl (K8sBasenameNotUniqueError ''svc-20190102000000'' ''svc'' ''svc-20190101000000'')) \<and>
   calls (snd (trigger_smart_rollout controller one_service conflicting_cluster ''app=myapp''
          ''default'' True fresh)) =
     [ListDeployment ''default'' (LabelSelector ''app=myapp'')]"
proof -
  let ?a = "named ''svc-20190101000000''" and ?b = "named ''svc-20190102000000''"
  have l: "api_list_namespaced_deployment conflicting_cluster (calls fresh) ''default''
     (LabelSelector ''app=myapp'') = Inr [?a, ?b]"
    by (simp add: conflicting_cluster_def healthy_cluster_def)
  have na: "meta_name (dep_metadata ?a) = ''svc-20190101000000''"
    and nb: "meta_name (dep_metadata ?b) = ''svc-20190102000000''"
    by (simp_all add: named_def)
  have nd: "\<not> distinct (map (\<lambda>m. getDeploymentBaseName (meta_name (dep_metadata m))) [?a, ?b])"
    by (simp add: na nb svc_base)
  from basename_conflict_aborts [OF l nd, of controller one_service True]
  obtain pre d post e where dec: "[?a, ?b] = pre @ d # post" and e: "e \<in> set pre"
    and r: "fst (trigger_smart_rollout controller one_service conflicting_cluster ''app=myapp''
          ''default'' True fresh) =
        Some (Inl (K8sBasenameNotUniqueError (meta_name (dep_metadata d))
               (getDeploymentBaseName (meta_name (dep_metadata d))) (meta_name (dep_metadata e))))"
    and c: "calls (snd (trigger_smart_rollout controller one_service conflicting_cluster
          ''app=myapp'' ''default'' True fresh)) =
        calls fresh @ [ListDeployment ''default'' (LabelSelector ''app=myapp'')]"
    by blast
  from dec e have "pre = [?a] \<and> d = ?b"
    by (cases pre) (auto simp: Cons_eq_append_conv)
  with e have "d = ?b" "e = ?a" by simp_all
  with r c l nd show ?thesis
    by (simp add: na nb svc_base fresh_def)
qed


subsection \<open>Claim C6\<close>

text \<open>
  C6: no service is patched before every new deployment has been observed fully ready.
  The order of the calls is as claimed (lemma \<open>cutover_follows_waits\<close>): every wait
  has returned before the first patch call. But a wait returns \<open>None\<close> when its feed
  ends, and the rollout goes on: in the closing cluster the only event for the
  duplicate of \<open>app-1\<close> shows no ready replica, the wait returns \<open>None\<close>, and the run
  patches the service, deletes \<open>app-1\<close> and ends successfully.
\<close>

theorem cutover_without_readiness:
  "fst (trigger_smart_rollout controller one_service closing_cluster ''app=myapp'' ''default''
          True fresh) = Some (Inr ()) \<and>
   calls (snd (trigger_smart_rollout controller one_service closing_cluster ''app=myapp''
          ''default'' True fresh)) =
     [ListDeployment ''default'' (LabelSelector ''app=myapp''),
      CreateDeployment ''default'' app2_manifest,
      WatchDeployment ''default'',
      WatchReturned ''app-20191011134834'' None,
      ListService ''default'' (LabelSelector ''app=myapp''),
      ListService ''default'' (FieldSelector ''metadata.name=app''),
      PatchService ''app'' ''default''
        (svc1\<lparr>svc_selector := (svc_selector svc1)(''patch'' \<mapsto> ''20191011134834'')\<rparr>),
      DeleteDeployment ''app-1'' ''default''] \<and>
   api_watch_namespaced_deployment closing_cluster
       [ListDeployment ''default'' (LabelSelector ''app=myapp''),
        CreateDeployment ''default'' app2_manifest] ''default'' =
     feed_of [Event \<lparr>event_type = ''ADDED'', event_object = with_status app2_manifest None\<rparr>] \<and>
   \<not> replicas_ready (dep_status (with_status app2_manifest None)) \<and>
   \<not> observed_ready ''app-20191011134834'' None"
proof -
  from run_closing [of True] obtain h where
    "trigger_smart_rollout controller one_service closing_cluster ''app=myapp'' ''default''
       True fresh =
     (Some (Inr ()),
      \<lparr>heap = h,
       calls = [ListDeployment ''default'' (LabelSelector ''app=myapp''),
                CreateDeployment ''default'' app2_manifest,
                WatchDeployment ''default'',
                WatchReturned ''app-20191011134834'' None,
                ListService ''default'' (LabelSelector ''app=myapp''),
                ListService ''default'' (FieldSelector ''metadata.name=app''),
                PatchService ''app'' ''default''
                  (svc1\<lparr>svc_selector := (svc_selector svc1)(''patch'' \<mapsto> ''20191011134834'')\<rparr>)] @
               (if True then [DeleteDeployment ''app-1'' ''default''] else [])\<rparr>)"
    by blast
  then have a: "fst (trigger_smart_rollout controller one_service closing_cluster ''app=myapp''
          ''default'' True fresh) = Some (Inr ())"
    and b: "calls (snd (trigger_smart_rollout controller one_service closing_cluster ''app=myapp''
          ''default'' True fresh)) =
     [ListDeployment ''default'' (LabelSelector ''app=myapp''),
      CreateDeployment ''default'' app2_manifest,
      WatchDeployment ''default'',
      WatchReturned ''app-20191011134834'' None,
      ListService ''default'' (LabelSelector ''app=myapp''),
      ListService ''default'' (FieldSelector ''metadata.name=app''),
      PatchService ''app'' ''default''
        (svc1\<lparr>svc_selector := (svc_selector svc1)(''patch'' \<mapsto> ''20191011134834'')\<rparr>),
      DeleteDeployment ''app-1'' ''default'']"
    by simp_all
  have c: "api_watch_namespaced_deployment closing_cluster
       [ListDeployment ''default'' (LabelSelector ''app=myapp''),
        CreateDeployment ''default'' app2_manifest] ''default'' =
     feed_of [Event \<lparr>event_type = ''ADDED'', event_object = with_status app2_manifest None\<rparr>]"
    by (simp add: closing_cluster_def healthy_cluster_def)
  have d: "\<not> replicas_ready (dep_status (with_status app2_manifest None))"
    by (simp add: with_status_def replicas_ready_def)
  have e: "\<not> observed_ready ''app-20191011134834'' None"
    by (simp add: observed_ready_def)
  from a b c d e show ?thesis by (intro conjI)
qed


subsection \<open>Claim C9\<close>

text \<open>
  C9: in a successful run with \<open>cleanup\<close> set, every deployment of the initial
  discovery is deleted by its exact name, in the order of the discovery, after the
  cutover of every discovered service; with \<open>cleanup\<close> not set no delete call is
  issued. The trace of a successful run is the list call for the deployments, the
  duplication rounds, the list call for the services, the cutover of each service
  listed, and then one delete call for each discovered deployment or nothing; these are
  all the delete calls of the run.
\<close>

theorem cleanup_deletes_discovered:
  assumes "trigger_smart_rollout md core ext sel ns cleanup s = (Some (Inr u), s')"
  shows "\<exists>items ws (svcs :: service list) currents.
      api_list_namespaced_deployment ext (calls s) ns (LabelSelector sel) = Inr items \<and>
      length ws = length items \<and>
      api_list_namespaced_service core
          (calls s @ ListDeployment ns (LabelSelector sel) #
             concat (map2 (duplicate_calls ns (getSimpleTimestamp md None)) items ws))
          ns (LabelSelector sel) = Inr svcs \<and>
      length currents = length svcs \<and>
      calls s' = calls s @ ListDeployment ns (LabelSelector sel) #
         concat (map2 (duplicate_calls ns (getSimpleTimestamp md None)) items ws) @
         ListService ns (LabelSelector sel) #
         concat (map2 (cutover_calls ns (getSimpleTimestamp md None)) (map svc_name svcs) currents) @
         (if cleanup then map (delete_call ns) items else []) \<and>
      filter is_delete (drop (length (calls s)) (calls s')) =
         (if cleanup then map (delete_call ns) items else [])"
  using assms
proof (cases rule: rollout_cases)
  case (duplicated items ws deps s2)
  let ?ts = "getSimpleTimestamp md None"
  from duplicated(4) have len: "length ws = length items" by (simp add: list_all2_lengthD)
  have del: "map (\<lambda>d. DeleteDeployment (meta_name (metas (heap s2) ! dep_metadata d)) ns) deps =
      map (delete_call ns) items"
  proof -
    have "map (\<lambda>d. DeleteDeployment (meta_name (metas (heap s2) ! dep_metadata d)) ns) deps =
        map (\<lambda>n. DeleteDeployment n ns) (map (\<lambda>d. meta_name (metas (heap s2) ! dep_metadata d)) deps)"
      by (simp add: comp_def)
    also have "\<dots> = map (\<lambda>n. DeleteDeployment n ns) (map (\<lambda>m. meta_name (dep_metadata m)) items)"
      by (simp only: duplicated(6))
    also have "\<dots> = map (delete_call ns) items" by (simp add: comp_def delete_call_def)
    finally show ?thesis .
  qed
  from duplicated(7) show ?thesis
  proof (cases rule: cutover_cases)
    case (finished svcs currents)
    from finished(4) duplicated(5) del
    have tr: "calls s' = calls s @ ListDeployment ns (LabelSelector sel) #
         concat (map2 (duplicate_calls ns ?ts) items ws) @
         ListService ns (LabelSelector sel) #
         concat (map2 (cutover_calls ns ?ts) (map svc_name svcs) currents) @
         (if cleanup then map (delete_call ns) items else [])"
      by simp
    have "filter is_delete (drop (length (calls s)) (calls s')) =
         (if cleanup then map (delete_call ns) items else [])"
      unfolding tr
      using filter_delete_none [OF phase_duplicate_calls [of ns ?ts items ws]]
        filter_delete_none [OF phase_cutover_calls [of ns ?ts "map svc_name svcs" currents]]
      by (simp add: filter_delete_all)
    moreover from finished(2) duplicated(5)
    have "api_list_namespaced_service core
          (calls s @ ListDeployment ns (LabelSelector sel) #
             concat (map2 (duplicate_calls ns ?ts) items ws))
          ns (LabelSelector sel) = Inr svcs" by simp
    ultimately show ?thesis using tr len finished(3) duplicated(1) by blast
  qed simp_all
qed simp_all

theorem cleanup_deletes_discovered_witness:
  "fst (trigger_smart_rollout controller one_service healthy_cluster ''app=myapp'' ''default''
          True fresh) = Some (Inr ()) \<and>
   filter is_delete
     (calls (snd (trigger_smart_rollout controller one_service healthy_cluster ''app=myapp''
                    ''default'' True fresh))) = [DeleteDeployment ''app-1'' ''default''] \<and>
   fst (trigger_smart_rollout controller one_service healthy_cluster ''app=myapp'' ''default''
          False fresh) = Some (Inr ()) \<and>
   filter is_delete
     (calls (snd (trigger_smart_rollout controller one_service healthy_cluster ''app=myapp''
                    ''default'' False fresh))) = []"
proof -
  have l: "api_list_namespaced_deployment healthy_cluster (calls fresh) ''default''
      (LabelSelector ''app=myapp'') = Inr [app1_manifest]"
    by (simp add: healthy_cluster_def)
  have n: "delete_call ''default'' app1_manifest = DeleteDeployment ''app-1'' ''default''"
    by (simp add: delete_call_def app1_manifest_def)
  have f: "calls fresh = []" by (simp add: fresh_def)
  obtain s1 where r1: "trigger_smart_rollout controller one_service healthy_cluster ''app=myapp''
      ''default'' True fresh = (Some (Inr ()), s1)"
    using run_healthy [of True] by blast
  obtain s2 where r2: "trigger_smart_rollout controller one_service healthy_cluster ''app=myapp''
      ''default'' False fresh = (Some (Inr ()), s2)"
    using run_healthy [of False] by blast
  from cleanup_deletes_discovered [OF r1] l f n
  have d1: "filter is_delete (calls s1) = [DeleteDeployment ''app-1'' ''default'']" by auto
  from cleanup_deletes_discovered [OF r2] l f
  have d2: "filter is_delete (calls s2) = []" by auto
  from d1 d2 show ?thesis by (simp add: r1 r2)
qed


section \<open>Claims about the version timestamp\<close>

subsection \<open>Claim C2\<close>

lemma healthy_duplicate_deployment:
  "\<exists>h. duplicate_deployment controller healthy_cluster ''app-1'' ''default'' fresh =
     (Inr app2_manifest,
      \<lparr>heap = h,
       calls = [ListDeployment ''default'' (FieldSelector ''metadata.name=app-1''),
                CreateDeployment ''default'' app2_manifest]\<rparr>)"
proof -
  from app1_duplicate obtain app2 store2 where
    d: "duplicate_deployment_config app1_store app1 ''20191011134834'' = (app2, store2)"
    and m: "manifest_of store2 app2 = app2_manifest" by blast
  have g: "get_namespaced_deployment healthy_cluster ''app-1'' ''default'' fresh =
     (Inr app1,
      \<lparr>heap = app1_store,
       calls = [ListDeployment ''default'' (FieldSelector ''metadata.name=app-1'')]\<rparr>)"
    by (simp add: get_namespaced_deployment_def healthy_cluster_def fresh_def record_call_def
        app1_load Let_def del: load_deployments.simps)
  have "duplicate_deployment controller healthy_cluster ''app-1'' ''default'' fresh =
     (Inr app2_manifest,
      \<lparr>heap = store2,
       calls = [ListDeployment ''default'' (FieldSelector ''metadata.name=app-1''),
                CreateDeployment ''default'' app2_manifest]\<rparr>)"
    unfolding duplicate_deployment_def g controller_timestamp
    by (simp add: d m create_namespaced_deployment_def healthy_cluster_def record_call_def Let_def)
  then show ?thesis by (rule exI [of _ store2])
qed

text \<open>
  C2: the version timestamp in the new names is the current time at the invocation of
  \<^verbatim>\<open>duplicate_deployment\<close> or \<^verbatim>\<open>trigger_smart_rollout\<close>. Both call
  \<^verbatim>\<open>getSimpleTimestamp()\<close> with no argument, and its default is the clock's reading
  when the module was imported: the timestamp is that of the import, whenever the call
  is made. A module imported on 2019-10-11 at 13:48:34 names the duplicate of \<open>app-1\<close>
  \<open>app-20191011134834\<close>, also in a run on 2019-10-12 at 09:00:00, whose own timestamp
  would be \<open>20191012090000\<close>.
\<close>

theorem timestamp_fixed_at_import:
  "getSimpleTimestamp (import_controller utcnow) None = strftime_simple utcnow \<and>
   controller = import_controller import_time \<and>
   getSimpleTimestamp controller None = ''20191011134834'' \<and>
   strftime_simple call_time = ''20191012090000'' \<and>
   getSimpleTimestamp controller None \<noteq> strftime_simple call_time \<and>
   fst (duplicate_deployment controller healthy_cluster ''app-1'' ''default'' fresh) =
     Inr app2_manifest \<and>
   filter is_create
     (calls (snd (trigger_smart_rollout controller one_service healthy_cluster ''app=myapp''
                    ''default'' False fresh))) =
     [CreateDeployment ''default'' app2_manifest] \<and>
   meta_name (dep_metadata app2_manifest) = ''app-20191011134834'' \<and>
   meta_labels (dep_metadata app2_manifest) ''patch'' = Some ''20191011134834''"
proof -
  have a: "getSimpleTimestamp (import_controller utcnow) None = strftime_simple utcnow"
    by (simp add: getSimpleTimestamp_def import_controller_def)
  have b: "controller = import_controller import_time" by (simp add: controller_def)
  have c: "getSimpleTimestamp controller None \<noteq> strftime_simple call_time"
    unfolding controller_timestamp call_time_timestamp by simp
  from healthy_duplicate_deployment
  have d: "fst (duplicate_deployment controller healthy_cluster ''app-1'' ''default'' fresh) =
     Inr app2_manifest" by auto
  from run_healthy [of False] obtain h where
    "trigger_smart_rollout controller one_service healthy_cluster ''app=myapp'' ''default''
       False fresh =
     (Some (Inr ()),
      \<lparr>heap = h,
       calls = [ListDeployment ''default'' (LabelSelector ''app=myapp''),
                CreateDeployment ''default'' app2_manifest,
                WatchDeployment ''default'',
                WatchReturned ''app-20191011134834'' (Some (with_status app2_manifest (Some 2))),
                ListService ''default'' (LabelSelector ''app=myapp''),
                ListService ''default'' (FieldSelector ''metadata.name=app''),
                PatchService ''app'' ''default''
                  (svc1\<lparr>svc_selector := (svc_selector svc1)(''patch'' \<mapsto> ''20191011134834'')\<rparr>)] @
               (if False then [DeleteDeployment ''app-1'' ''default''] else [])\<rparr>)"
    by blast
  then have e: "filter is_create
     (calls (snd (trigger_smart_rollout controller one_service healthy_cluster ''app=myapp''
                    ''default'' False fresh))) =
     [CreateDeployment ''default'' app2_manifest]"
    by simp
  have f: "meta_labels (dep_metadata app2_manifest) ''patch'' = Some ''20191011134834''"
    by (simp add: app2_manifest_def spec_duplicate_def with_refs_def)
  from a b controller_timestamp call_time_timestamp c d e app2_name f show ?thesis
    by (intro conjI)
qed


end
